theory Spec2Isabelle
  imports
    Main
    "HOL-Library.Word"
    "HOL-Library.Char_ord"
    "HOL-Library.List_Lexorder"
    "HOL-Library.AList"
begin

unbundle bit_operations_syntax

section \<open>Strings and bytes\<close>

text \<open>
  A Go \<^verbatim>\<open>string\<close> and a Go \<^verbatim>\<open>[]byte\<close> are sequences of bytes. Both are
  modelled as \<^typ>\<open>string\<close>: a \<^typ>\<open>char\<close> of HOL is one byte (0..255). Go compares strings
  byte by byte, a proper prefix being smaller; this is the order \<open>(<)\<close> of
  \<^typ>\<open>char list\<close> (the lexicographic order over \<open>of_char\<close>).
\<close>

type_synonym bytes = string

section \<open>Errors\<close>

datatype error =
    ErrTransport                \<comment> \<open>\<^verbatim>\<open>http.Get\<close> returned an error\<close>
  | ErrStatus nat               \<comment> \<open>\<^verbatim>\<open>fmt.Errorf("failed to ...: %s", resp.Status)\<close>\<close>
  | ErrBodyRead                 \<comment> \<open>reading the response body failed\<close>
  | ErrNoMatch string           \<comment> \<open>\<^verbatim>\<open>no metadata files matching pattern %s found ...\<close>\<close>
  | ErrFS string                \<comment> \<open>an error of the \<^verbatim>\<open>os\<close> package, on the named path\<close>
  | ErrRemoveTUF string         \<comment> \<open>\<^verbatim>\<open>error: could not remove TUF directory %s: %v\<close>\<close>
  | ErrTUF                      \<comment> \<open>an error of the external trust library\<close>
  | ErrJSON                     \<comment> \<open>\<^verbatim>\<open>json.MarshalIndent\<close> failed\<close>

section \<open>The HTTP client, as seen by the program\<close>

text \<open>
  \<^verbatim>\<open>http.Get(url)\<close> either fails (no response) or yields a response with a status
  code and a body. Reading the body can fail part-way: \<open>BodyFails bs\<close> delivers the
  bytes \<open>bs\<close> and then an error; \<open>Body bs\<close> delivers \<open>bs\<close> and then end of file.
\<close>

datatype body = Body bytes | BodyFails bytes

datatype http_result = GetFails | Response (StatusCode: nat) (RespBody: body)

definition StatusOK :: nat where
  "StatusOK = 200"

section \<open>Mirror Directory Parser and Latest-Version Resolver\<close>

subsection \<open>\<^verbatim>\<open>strings.Split(s, "\n")\<close>\<close>

text \<open>
  The pieces between the newline bytes, in order; there is always at least one piece
  (the empty body has the single empty line).
\<close>

fun split_lines :: "string \<Rightarrow> string list" where
  "split_lines [] = [[]]"
| "split_lines (c # cs) =
     (if c = CHR 0x0A then [] # split_lines cs
      else (case split_lines cs of
              [] \<Rightarrow> [[c]]
            | l # ls \<Rightarrow> (c # l) # ls))"

subsection \<open>The regular expression \<^verbatim>\<open>(\d+\.<pattern>)\<close>\<close>

text \<open>
  \<^verbatim>\<open>regexp.MustCompile(fmt.Sprintf(`(\d+\.%s)`, regexp.QuoteMeta(metadataPattern)))\<close>:
  one or more ASCII digits, a literal dot, and the pattern taken literally
  (\<^verbatim>\<open>QuoteMeta\<close> escapes every metacharacter). The expression is matched on bytes
  here; Go matches on UTF-8 runes, which is the same thing for every pattern that is
  valid UTF-8 without U+FFFD, in particular for the ASCII role names that \<^verbatim>\<open>main\<close>
  passes.

  \<open>re_matches pat m\<close> is the language of the expression: the declarative reading.
\<close>

definition is_digit :: "char \<Rightarrow> bool" where
  "is_digit c \<longleftrightarrow> CHR ''0'' \<le> c \<and> c \<le> CHR ''9''"

definition re_matches :: "string \<Rightarrow> string \<Rightarrow> bool" where
  "re_matches pat m \<longleftrightarrow>
     (\<exists>ds. ds \<noteq> [] \<and> (\<forall>c \<in> set ds. is_digit c) \<and> m = ds @ CHR ''.'' # pat)"

text \<open>
  A match anchored at the start of \<open>s\<close>. \<^verbatim>\<open>\d+\<close> is greedy and the next item
  is a dot, which is no digit, so the only possible match takes the whole run of digits
  at the start of \<open>s\<close>.
\<close>

definition match_here :: "string \<Rightarrow> string \<Rightarrow> string option" where
  "match_here pat s =
     (let ds = takeWhile is_digit s; rest = dropWhile is_digit s
      in if ds \<noteq> [] \<and> take (Suc (length pat)) rest = CHR ''.'' # pat
         then Some (ds @ CHR ''.'' # pat) else None)"

text \<open>
  \<^verbatim>\<open>re.FindStringSubmatch(line)\<close>: the leftmost match in \<open>line\<close>, or no match
  (\<^verbatim>\<open>nil\<close>, of length 0). The only group of the expression surrounds all of it, so
  \<^verbatim>\<open>matches[1]\<close> is the text of the whole match; that text is the value here.
\<close>

fun FindStringSubmatch :: "string \<Rightarrow> string \<Rightarrow> string option" where
  "FindStringSubmatch pat [] = None"
| "FindStringSubmatch pat (c # cs) =
     (case match_here pat (c # cs) of
        Some m \<Rightarrow> Some m
      | None \<Rightarrow> FindStringSubmatch pat cs)"

subsection \<open>The loop over the lines (main.go, lines 307 to 311)\<close>

fun collect_files :: "string \<Rightarrow> string list \<Rightarrow> string list \<Rightarrow> string list" where
  "collect_files pat [] files = files"
| "collect_files pat (line # lines) files =
     (case FindStringSubmatch pat line of
        Some m \<Rightarrow> collect_files pat lines (files @ [m])
      | None \<Rightarrow> collect_files pat lines files)"

text \<open>The candidate set of a listing body: the value of \<^verbatim>\<open>files\<close> after the loop.\<close>

definition candidates :: "string \<Rightarrow> string \<Rightarrow> string list" where
  "candidates pat listing = collect_files pat (split_lines listing) []"

subsection \<open>\<^verbatim>\<open>GetLatestMetadataName\<close> (main.go, lines 287 to 321)\<close>

text \<open>
  The function returns a pair \<^verbatim>\<open>(string, error)\<close>; the error is \<open>None\<close> for
  \<^verbatim>\<open>nil\<close>. \<open>get\<close> is the HTTP client: the answer to a GET of the given URL.
  \<^verbatim>\<open>sort.Strings\<close> sorts in increasing byte-wise order, which \<open>sort\<close> does on
  \<^typ>\<open>string\<close>.
\<close>

definition GetLatestMetadataName ::
  "(string \<Rightarrow> http_result) \<Rightarrow> string \<Rightarrow> string \<Rightarrow> string \<times> error option" where
  "GetLatestMetadataName get mirror metadataPattern =
     (case get mirror of
        GetFails \<Rightarrow> ('''', Some ErrTransport)
      | Response code b \<Rightarrow>
          if code \<noteq> StatusOK then ('''', Some (ErrStatus code))
          else (case b of
                  BodyFails _ \<Rightarrow> ('''', Some ErrBodyRead)
                | Body listing \<Rightarrow>
                    (let files = candidates metadataPattern listing
                     in if length files = 0 then ('''', Some (ErrNoMatch metadataPattern))
                        else (let sorted_files = sort files
                              in (sorted_files ! (length sorted_files - 1), None)))))"

text \<open>
  The version number of a versioned filename: the decimal value of its leading digits.
\<close>

definition digit_val :: "char \<Rightarrow> nat" where
  "digit_val c = of_char c - of_char CHR ''0''"

definition decimal_step :: "nat \<Rightarrow> char \<Rightarrow> nat" where
  "decimal_step n c = 10 * n + digit_val c"

definition decimal :: "string \<Rightarrow> nat" where
  "decimal ds = foldl decimal_step 0 ds"

definition version_digits :: "string \<Rightarrow> string" where
  "version_digits name = takeWhile is_digit name"

definition version_of :: "string \<Rightarrow> nat" where
  "version_of name = decimal (version_digits name)"

subsection \<open>What the parser is meant to find, stated without the search\<close>

text \<open>
  \<open>has_match pat line\<close>: some contiguous piece of the line is in the language of the
  expression. \<open>leftmost_match pat line m\<close>: \<open>m\<close> is such a piece and no such piece
  starts further left.
\<close>

definition has_match :: "string \<Rightarrow> string \<Rightarrow> bool" where
  "has_match pat line \<longleftrightarrow> (\<exists>pre m post. line = pre @ m @ post \<and> re_matches pat m)"

definition leftmost_match :: "string \<Rightarrow> string \<Rightarrow> string \<Rightarrow> bool" where
  "leftmost_match pat line m \<longleftrightarrow>
     (\<exists>pre post. line = pre @ m @ post \<and> re_matches pat m \<and>
        (\<forall>pre' m' post'. line = pre' @ m' @ post' \<and> re_matches pat m'
            \<longrightarrow> length pre \<le> length pre'))"

text \<open>
  The candidate set of a listing, stated without the search: the strings that are the
  leftmost match of some line.
\<close>

definition candidate_set :: "string \<Rightarrow> string \<Rightarrow> string set" where
  "candidate_set pat listing =
     {m. \<exists>line \<in> set (split_lines listing). leftmost_match pat line m}"

section \<open>The file system\<close>

text \<open>
  The program works on directories and regular files. A path is the list of its
  components below the root of the file system; a directory holds its entries by name.
  \<^verbatim>\<open>filepath.Join(dir, name)\<close> appends the component \<open>name\<close>, and ignores it when
  it is empty (every name joined by the program is free of separators).
\<close>

type_synonym path = "string list"

datatype node = File bytes | Dir "(string \<times> node) list"

definition Join :: "path \<Rightarrow> string \<Rightarrow> path" where
  "Join dir name = (if name = [] then dir else dir @ [name])"

fun lookup :: "node \<Rightarrow> path \<Rightarrow> node option" where
  "lookup n [] = Some n"
| "lookup (File b) (c # p) = None"
| "lookup (Dir es) (c # p) =
     (case map_of es c of None \<Rightarrow> None | Some child \<Rightarrow> lookup child p)"

text \<open>
  \<open>set_node t p v\<close> puts \<open>v\<close> at path \<open>p\<close> (a new entry, or in place of what is
  there); it is \<open>None\<close> when the parent of \<open>p\<close> is not an existing directory.
  \<open>del_node t p\<close> removes what is at \<open>p\<close>, with everything below it, and leaves the
  tree as it is when there is nothing at \<open>p\<close>.
\<close>

fun set_node :: "node \<Rightarrow> path \<Rightarrow> node \<Rightarrow> node option" where
  "set_node n [] v = Some v"
| "set_node (File b) (c # p) v = None"
| "set_node (Dir es) (c # p) v =
     (if p = [] then Some (Dir (AList.update c v es))
      else (case map_of es c of
              None \<Rightarrow> None
            | Some child \<Rightarrow>
                (case set_node child p v of
                   None \<Rightarrow> None
                 | Some child' \<Rightarrow> Some (Dir (AList.update c child' es)))))"

fun del_node :: "node \<Rightarrow> path \<Rightarrow> node" where
  "del_node n [] = n"
| "del_node (File b) (c # p) = File b"
| "del_node (Dir es) (c # p) =
     (if p = [] then Dir (AList.delete c es)
      else (case map_of es c of
              None \<Rightarrow> Dir es
            | Some child \<Rightarrow> Dir (AList.update c (del_node child p) es)))"

text \<open>
  Operations of the \<^verbatim>\<open>os\<close> package. Each can fail for reasons outside the tree
  (permissions, a full disk): \<open>fault\<close> says which operations do. An operation that fails
  leaves the tree as it was.
\<close>

datatype os_op =
    OpMkdirTemp path
  | OpCreateTemp path
  | OpCreate path
  | OpWrite path
  | OpReadFile path
  | OpRemoveAll path
  | OpRename path path
  | OpLstat path
  | OpReadDir path
  | OpOpen path

text \<open>An open file (\<^verbatim>\<open>*os.File\<close>): the name it was opened under and the offset of the next write.\<close>

record os_File =
  Name :: path
  offset :: nat

definition os_Create :: "(os_op \<Rightarrow> bool) \<Rightarrow> node \<Rightarrow> path \<Rightarrow> error + (os_File \<times> node)" where
  \<comment> \<open>\<^verbatim>\<open>O_RDWR|O_CREATE|O_TRUNC\<close>: fails on a directory, truncates a file, makes a new one.\<close>
  "os_Create fault fs p =
     (if fault (OpCreate p) then Inl (ErrFS (concat p))
      else (case lookup fs p of
              Some (Dir es) \<Rightarrow> Inl (ErrFS (concat p))
            | _ \<Rightarrow>
               (case set_node fs p (File []) of
                  None \<Rightarrow> Inl (ErrFS (concat p))
                | Some fs' \<Rightarrow> Inr (\<lparr>Name = p, offset = 0\<rparr>, fs'))))"

definition os_MkdirTemp :: "(os_op \<Rightarrow> bool) \<Rightarrow> node \<Rightarrow> path \<Rightarrow> error + (path \<times> node)" where
  \<comment> \<open>\<open>p\<close> is the temporary directory joined with the name drawn for the pattern.\<close>
  "os_MkdirTemp fault fs p =
     (if fault (OpMkdirTemp p) then Inl (ErrFS (concat p))
      else (case lookup fs p of
              Some n \<Rightarrow> Inl (ErrFS (concat p))
            | None \<Rightarrow>
               (case set_node fs p (Dir []) of
                  None \<Rightarrow> Inl (ErrFS (concat p))
                | Some fs' \<Rightarrow> Inr (p, fs'))))"

definition os_CreateTemp :: "(os_op \<Rightarrow> bool) \<Rightarrow> node \<Rightarrow> path \<Rightarrow> error + (os_File \<times> node)" where
  "os_CreateTemp fault fs p =
     (if fault (OpCreateTemp p) then Inl (ErrFS (concat p))
      else (case lookup fs p of
              Some n \<Rightarrow> Inl (ErrFS (concat p))
            | None \<Rightarrow>
               (case set_node fs p (File []) of
                  None \<Rightarrow> Inl (ErrFS (concat p))
                | Some fs' \<Rightarrow> Inr (\<lparr>Name = p, offset = 0\<rparr>, fs'))))"

definition os_ReadFile :: "(os_op \<Rightarrow> bool) \<Rightarrow> node \<Rightarrow> path \<Rightarrow> error + bytes" where
  "os_ReadFile fault fs p =
     (if fault (OpReadFile p) then Inl (ErrFS (concat p))
      else (case lookup fs p of
              Some (File b) \<Rightarrow> Inr b
            | _ \<Rightarrow> Inl (ErrFS (concat p))))"

definition os_RemoveAll :: "(os_op \<Rightarrow> bool) \<Rightarrow> node \<Rightarrow> path \<Rightarrow> error option \<times> node" where
  \<comment> \<open>No error when there is nothing at the path.\<close>
  "os_RemoveAll fault fs p =
     (if fault (OpRemoveAll p) then (Some (ErrFS (concat p)), fs)
      else (None, del_node fs p))"

definition is_prefix :: "path \<Rightarrow> path \<Rightarrow> bool" where
  "is_prefix p q \<longleftrightarrow> take (length p) q = p"

definition os_Rename :: "(os_op \<Rightarrow> bool) \<Rightarrow> node \<Rightarrow> path \<Rightarrow> path \<Rightarrow> error option \<times> node" where
  \<comment> \<open>
    \<^verbatim>\<open>os.Rename\<close> on Unix: the old path must exist; a new path that is a directory is
    refused (\<^verbatim>\<open>EEXIST\<close>), and so is a directory moved onto a file or into itself; the
    parent of the new path must be a directory.\<close>
  "os_Rename fault fs oldp newp =
     (if fault (OpRename oldp newp) then (Some (ErrFS (concat oldp)), fs)
      else (case lookup fs oldp of
              None \<Rightarrow> (Some (ErrFS (concat oldp)), fs)
            | Some src \<Rightarrow>
               (case lookup fs newp of
                  Some (Dir es) \<Rightarrow> (Some (ErrFS (concat newp)), fs)
                | dst \<Rightarrow>
                   if oldp = [] \<or> is_prefix oldp newp
                      \<or> (dst \<noteq> None \<and> (case src of Dir es \<Rightarrow> True | File b \<Rightarrow> False))
                   then (Some (ErrFS (concat newp)), fs)
                   else (case set_node (del_node fs oldp) newp src of
                           None \<Rightarrow> (Some (ErrFS (concat newp)), fs)
                         | Some fs' \<Rightarrow> (None, fs')))))"

text \<open>
  Writing \<open>data\<close> through an open file. The bytes go to the file's contents from
  the offset on, over what was there, the gap (if any) filled with zero bytes; writing
  no bytes changes nothing and cannot fail. The write goes through the open
  descriptor: when the name the file was opened under no longer leads to a regular
  file, the file has been unlinked, the write still succeeds, and the tree is left as
  it is. (An open file whose name leads to a regular file is taken to be that file:
  the program never replaces a file it holds open.)
\<close>

definition write_at :: "bytes \<Rightarrow> nat \<Rightarrow> bytes \<Rightarrow> bytes" where
  "write_at old off data =
     (if data = [] then old
      else take off old @ replicate (off - length old) (CHR 0x00) @ data
             @ drop (off + length data) old)"

definition file_Write :: "(os_op \<Rightarrow> bool) \<Rightarrow> node \<Rightarrow> os_File \<Rightarrow> bytes \<Rightarrow> error option \<times> node" where
  "file_Write fault fs f data =
     (if data = [] then (None, fs)
      else if fault (OpWrite (Name f)) then (Some (ErrFS (concat (Name f))), fs)
      else (case lookup fs (Name f) of
              Some (File old) \<Rightarrow>
                (case set_node fs (Name f) (File (write_at old (offset f) data)) of
                   None \<Rightarrow> (None, fs)
                 | Some fs' \<Rightarrow> (None, fs'))
            | _ \<Rightarrow> (None, fs)))"

section \<open>Encoder\<close>

text \<open>
  Modelled from the spec: \<^verbatim>\<open>base64.StdEncoding.EncodeToString\<close> belongs to the Go
  standard library and is not part of the sources; the spec calls it the "standard
  base64 text encoding (no line wrapping, no URL-safe variant)". That is the encoding
  of RFC 4648, section 4: three bytes make a 24-bit value, written as four digits of
  six bits each, most significant first; a last group of one or two bytes is filled
  with zero bits and its encoding padded with \<^verbatim>\<open>=\<close> to four characters. The value and
  the digits are computed as the library does (\<^verbatim>\<open>val >> 18 & 0x3F\<close> is
  \<open>val div 2 ^ 18 mod 64\<close>).
\<close>

definition encodeStd :: string where
  "encodeStd = ''ABCDEFGHIJKLMNOPQRSTUVWXYZabcdefghijklmnopqrstuvwxyz0123456789+/''"

definition b64_digit :: "nat \<Rightarrow> char" where
  "b64_digit v = encodeStd ! (v mod 64)"

definition byte_val :: "char \<Rightarrow> nat" where
  "byte_val c = of_char c"

fun EncodeToString :: "bytes \<Rightarrow> string" where
  "EncodeToString (a # b # c # rest) =
     (let val = byte_val a * 2 ^ 16 + byte_val b * 2 ^ 8 + byte_val c
      in [b64_digit (val div 2 ^ 18), b64_digit (val div 2 ^ 12),
          b64_digit (val div 2 ^ 6), b64_digit val]) @ EncodeToString rest"
| "EncodeToString [a, b] =
     (let val = byte_val a * 2 ^ 16 + byte_val b * 2 ^ 8
      in [b64_digit (val div 2 ^ 18), b64_digit (val div 2 ^ 12),
          b64_digit (val div 2 ^ 6), CHR ''=''])"
| "EncodeToString [a] =
     (let val = byte_val a * 2 ^ 16
      in [b64_digit (val div 2 ^ 18), b64_digit (val div 2 ^ 12), CHR ''='', CHR ''=''])"
| "EncodeToString [] = []"

text \<open>
  Modelled from the spec: decoding, the other half of the spec's "Encoder round-trip".
  \<open>b64_value c\<close> is the six-bit value of a digit of the alphabet; padding is accepted
  in the last group of four only.
\<close>

fun index_of :: "'a \<Rightarrow> 'a list \<Rightarrow> nat option" where
  "index_of x [] = None"
| "index_of x (y # ys) = (if x = y then Some 0 else map_option Suc (index_of x ys))"

definition b64_value :: "char \<Rightarrow> nat option" where
  "b64_value c = index_of c encodeStd"

definition byte_of :: "nat \<Rightarrow> char" where
  "byte_of n = char_of (n mod 256)"

fun DecodeString :: "string \<Rightarrow> bytes option" where
  "DecodeString [] = Some []"
| "DecodeString (c0 # c1 # c2 # c3 # rest) =
     (case (b64_value c0, b64_value c1) of
        (Some v0, Some v1) \<Rightarrow>
          if rest = [] \<and> c2 = CHR ''='' \<and> c3 = CHR ''=''
          then Some [byte_of ((v0 * 64 + v1) div 2 ^ 4)]
          else (case b64_value c2 of
                  None \<Rightarrow> None
                | Some v2 \<Rightarrow>
                    if rest = [] \<and> c3 = CHR ''=''
                    then (let val = (v0 * 64 + v1) * 64 + v2
                          in Some [byte_of (val div 2 ^ 10), byte_of (val div 2 ^ 2)])
                    else (case b64_value c3 of
                            None \<Rightarrow> None
                          | Some v3 \<Rightarrow>
                              (let val = ((v0 * 64 + v1) * 64 + v2) * 64 + v3
                               in map_option
                                    (\<lambda>r. byte_of (val div 2 ^ 16) # byte_of (val div 2 ^ 8)
                                           # byte_of val # r)
                                    (DecodeString rest))))
      | _ \<Rightarrow> None)"
| "DecodeString _ = None"

text \<open>
  \<^verbatim>\<open>EncodeBase64\<close> (main.go, lines 269 to 275): the file is read by the name of the
  open file; the result is the pair \<^verbatim>\<open>(string, error)\<close>.
\<close>

definition EncodeBase64 :: "(os_op \<Rightarrow> bool) \<Rightarrow> node \<Rightarrow> os_File \<Rightarrow> string \<times> error option" where
  "EncodeBase64 fault fs sourceFile =
     (case os_ReadFile fault fs (Name sourceFile) of
        Inl err \<Rightarrow> ('''', Some err)
      | Inr data \<Rightarrow> (EncodeToString data, None))"

section \<open>The environment of a run and the state it changes\<close>

text \<open>
  Everything the program takes from outside is a field of \<open>env\<close>: the answers of
  the network (\<open>net e n url\<close> answers the \<open>n\<close>-th GET of the run, for \<open>url\<close>), the
  operations of the operating system that fail, the home directory and the temporary
  directory, the names drawn for temporary files, the clock, and the libraries that
  are not part of the sources: the trust library \<^verbatim>\<open>sigstore/pkg/tuf\<close> (which acts on
  the file system), \<^verbatim>\<open>json.MarshalIndent\<close> and the serialisation of a tar stream
  under gzip. No field is constrained.
\<close>

datatype typeflag = TypeReg | TypeDir

record tar_header =
  hName :: path
  Typeflag :: typeflag
  Size :: nat

type_synonym tar_entry = "tar_header \<times> bytes"

record env =
  net :: "nat \<Rightarrow> string \<Rightarrow> http_result"
  faults :: "os_op \<Rightarrow> bool"
  HOME :: path
  TempDir :: path
  temp_name :: "string \<Rightarrow> string"
  clock :: int
  tuf_Initialize :: "node \<Rightarrow> string \<Rightarrow> bytes option \<Rightarrow> error option \<times> node"
  tuf_GetRootStatus :: "node \<Rightarrow> error + string"
  json_MarshalIndent :: "string \<Rightarrow> error + string"
  tar_gz :: "tar_entry list \<Rightarrow> bytes"

text \<open>
  The state: the file system, the URLs requested so far, what was printed on standard
  output, the messages logged on standard error, and the stages of the pipeline after
  the fetches that were entered, in order.
\<close>

datatype stage = TrustInit | RootStatus | Restructure | Archive | Encode | Emit

record world =
  disk :: node
  gets :: "string list"
  stdout :: "string list"
  stderr :: "string list"
  stages :: "stage list"

definition http_Get :: "env \<Rightarrow> string \<Rightarrow> world \<Rightarrow> http_result \<times> world" where
  "http_Get e url w = (net e (length (gets w)) url, w\<lparr>gets := gets w @ [url]\<rparr>)"

text \<open>\<^verbatim>\<open>GetLatestMetadataName\<close> as a step of a run: its GET is the next one of the run.\<close>

definition resolve :: "env \<Rightarrow> string \<Rightarrow> string \<Rightarrow> world \<Rightarrow> (string \<times> error option) \<times> world" where
  "resolve e mirror metadataPattern w =
     (GetLatestMetadataName (net e (length (gets w))) mirror metadataPattern,
      w\<lparr>gets := gets w @ [mirror]\<rparr>)"

section \<open>Metadata Fetcher\<close>

text \<open>
  \<^verbatim>\<open>DownloadFile\<close> (main.go, lines 173 to 184). \<^verbatim>\<open>io.Copy\<close> reads the body and
  writes what it delivers to the file: an empty body leads to no write at all; when
  the body fails after some bytes, those bytes are written and the error of the body is
  returned, unless writing failed first.
\<close>

definition io_Copy :: "env \<Rightarrow> os_File \<Rightarrow> body \<Rightarrow> world \<Rightarrow> error option \<times> world" where
  "io_Copy e dst b w =
     (case b of
        Body bs \<Rightarrow>
          if bs = [] then (None, w)
          else (case file_Write (faults e) (disk w) dst bs of
                  (err, d) \<Rightarrow> (err, w\<lparr>disk := d\<rparr>))
      | BodyFails bs \<Rightarrow>
          if bs = [] then (Some ErrBodyRead, w)
          else (case file_Write (faults e) (disk w) dst bs of
                  (Some err, d) \<Rightarrow> (Some err, w\<lparr>disk := d\<rparr>)
                | (None, d) \<Rightarrow> (Some ErrBodyRead, w\<lparr>disk := d\<rparr>)))"

definition DownloadFile :: "env \<Rightarrow> os_File \<Rightarrow> string \<Rightarrow> world \<Rightarrow> error option \<times> world" where
  "DownloadFile e destinationFile url w =
     (case http_Get e url w of
        (GetFails, w1) \<Rightarrow> (Some ErrTransport, w1)
      | (Response code b, w1) \<Rightarrow>
          if code \<noteq> StatusOK then (Some (ErrStatus code), w1)
          else io_Copy e destinationFile b w1)"

section \<open>Archiver\<close>

text \<open>
  \<^verbatim>\<open>filepath.Walk\<close> visits a tree in lexical order: a directory, then its entries by
  increasing name, each with all that is below it. It calls the function of
  \<^verbatim>\<open>CompressDirectory\<close> (main.go, lines 222 to 257) on every path, with an error when the
  path cannot be examined or the directory cannot be read; the function returns that
  error, which ends the walk. Otherwise it skips the root (\<^verbatim>\<open>relPath == "."\<close>),
  writes a header named by the relative path and, for a regular file, copies the
  contents after it. \<open>walk\<close> yields the error, if any, and the entries written to the
  tar stream until then; \<open>apath\<close> is the path visited and \<open>rel\<close> the same path relative
  to the root of the walk.
\<close>

fun walk_list ::
  "(error option \<times> tar_entry list) list \<Rightarrow> error option \<times> tar_entry list" where
  "walk_list [] = (None, [])"
| "walk_list ((Some err, es) # rs) = (Some err, es)"
| "walk_list ((None, es) # rs) = (case walk_list rs of (err, es') \<Rightarrow> (err, es @ es'))"

fun walk :: "(os_op \<Rightarrow> bool) \<Rightarrow> path \<Rightarrow> path \<Rightarrow> node \<Rightarrow> error option \<times> tar_entry list" where
  "walk fault apath rel (File b) =
     (if fault (OpLstat apath) then (Some (ErrFS (concat apath)), [])
      else if rel = [] then (None, [])
      else if fault (OpOpen apath)
           then (Some (ErrFS (concat apath)),
                 [(\<lparr>hName = rel, Typeflag = TypeReg, Size = length b\<rparr>, [])])
           else (None, [(\<lparr>hName = rel, Typeflag = TypeReg, Size = length b\<rparr>, b)]))"
| "walk fault apath rel (Dir es) =
     (if fault (OpLstat apath) \<or> fault (OpReadDir apath) then (Some (ErrFS (concat apath)), [])
      else (case walk_list
                   (map (\<lambda>nc. walk fault (apath @ [fst nc]) (rel @ [fst nc]) (snd nc))
                      (sort_key fst es)) of
              (err, entries) \<Rightarrow>
                (err, (if rel = [] then []
                       else [(\<lparr>hName = rel, Typeflag = TypeDir, Size = 0\<rparr>, [])]) @ entries)))"

text \<open>
  \<^verbatim>\<open>CompressDirectory\<close> (main.go, lines 208 to 259). The output file is created first.
  The deferred \<^verbatim>\<open>Close\<close> calls finish the tar stream and the gzip stream on every
  return after that, so the file ends up holding the serialisation of the entries
  written, also when the walk ended with an error.
\<close>

definition CompressDirectory :: "env \<Rightarrow> path \<Rightarrow> path \<Rightarrow> world \<Rightarrow> error option \<times> world" where
  "CompressDirectory e src dst w =
     (case os_Create (faults e) (disk w) dst of
        Inl err \<Rightarrow> (Some err, w)
      | Inr (out, d) \<Rightarrow>
          (case (case lookup d src of
                   None \<Rightarrow> (Some (ErrFS (concat src)), [])
                 | Some n \<Rightarrow> walk (faults e) src [] n) of
             (err, entries) \<Rightarrow>
               (err, w\<lparr>disk := (case set_node d dst (File (tar_gz e entries)) of
                                   None \<Rightarrow> d
                                 | Some d' \<Rightarrow> d')\<rparr>)))"

text \<open>
  Reading an archive back, as the spec's round-trip does: the entries rebuild a tree,
  each put at its relative path below an empty directory.
\<close>

fun untar :: "tar_entry list \<Rightarrow> node \<Rightarrow> node option" where
  "untar [] t = Some t"
| "untar ((h, b) # es) t =
     (case set_node t (hName h) (case Typeflag h of TypeReg \<Rightarrow> File b | TypeDir \<Rightarrow> Dir []) of
        None \<Rightarrow> None
      | Some t' \<Rightarrow> untar es t')"

section \<open>Manifest Emitter\<close>

text \<open>
  \<^verbatim>\<open>strings.ReplaceAll(s, old, new)\<close>: the occurrences of \<open>old\<close> that do not
  overlap, found from left to right, are replaced by \<open>new\<close>. (For an empty \<open>old\<close>,
  which the program never passes, \<open>new\<close> is put before every byte and at the end.)
\<close>

function ReplaceAll :: "string \<Rightarrow> string \<Rightarrow> string \<Rightarrow> string" where
  "ReplaceAll s old new =
     (if s = [] then (if old = [] then new else [])
      else if old = [] then new @ hd s # ReplaceAll (tl s) old new
      else if take (length old) s = old then new @ ReplaceAll (drop (length old) s) old new
      else hd s # ReplaceAll (tl s) old new)"
  by pat_completeness auto
termination
  by (relation "measure (\<lambda>(s, old, new). length s)") auto

declare ReplaceAll.simps [simp del]


text \<open>The verb \<^verbatim>\<open>%d\<close> of \<^verbatim>\<open>fmt.Sprintf\<close> on an \<^verbatim>\<open>int64\<close>: decimal, with a minus sign
  when negative.\<close>

definition digit_char :: "nat \<Rightarrow> char" where
  "digit_char d = char_of (of_char CHR ''0'' + d)"

function show_nat :: "nat \<Rightarrow> string" where
  "show_nat n = (if n < 10 then [digit_char n] else show_nat (n div 10) @ [digit_char (n mod 10)])"
  by pat_completeness auto
termination
  by (relation "measure id") auto

declare show_nat.simps [simp del]

definition show_int :: "int \<Rightarrow> string" where
  "show_int i = (if i < 0 then CHR ''-'' # show_nat (nat (- i)) else show_nat (nat i))"

text \<open>The resource name and the document (main.go, lines 143 to 153).\<close>

definition resource_name :: "string \<Rightarrow> int \<Rightarrow> string" where
  "resource_name mirror now = ReplaceAll mirror ''https://'' [] @ ''-'' @ show_int now"

definition trustRootYAML :: "string \<Rightarrow> int \<Rightarrow> string \<Rightarrow> string \<Rightarrow> string" where
  "trustRootYAML mirror now b64RootJSON b64RepositoryArchive =
     ''apiVersion: policy.sigstore.dev/v1alpha1'' @ [CHR 0x0A] @
     ''kind: TrustRoot'' @ [CHR 0x0A] @
     ''metadata:'' @ [CHR 0x0A] @
     ''  name: '' @ resource_name mirror now @ [CHR 0x0A] @
     ''spec:'' @ [CHR 0x0A] @
     ''  repository:'' @ [CHR 0x0A] @
     ''    root: |-'' @ [CHR 0x0A] @
     ''      '' @ b64RootJSON @ [CHR 0x0A] @
     ''    mirrorFS: |-'' @ [CHR 0x0A] @
     ''      '' @ b64RepositoryArchive @ [CHR 0x0A]"

section \<open>The pipeline: \<^verbatim>\<open>main\<close> (main.go, lines 25 to 155)\<close>

text \<open>
  How the process ends: \<open>Returned\<close> when \<^verbatim>\<open>main\<close> returns (status 0), \<open>Exited n\<close> for
  \<^verbatim>\<open>os.Exit(n)\<close> (\<^verbatim>\<open>log.Fatalf\<close> logs and exits with 1), \<open>Panicked\<close> for a run-time
  panic, which ends the process with status 2. Deferred calls run in the first and the
  last case, not on \<^verbatim>\<open>os.Exit\<close>.
\<close>

datatype outcome = Returned | Exited nat | Panicked

fun exit_status :: "outcome \<Rightarrow> nat" where
  "exit_status Returned = 0"
| "exit_status (Exited n) = n"
| "exit_status Panicked = 2"

definition log_Printf :: "string \<Rightarrow> world \<Rightarrow> world" where
  "log_Printf msg w = w\<lparr>stderr := stderr w @ [msg]\<rparr>"

definition log_Fatalf :: "string \<Rightarrow> world \<Rightarrow> outcome \<times> world" where
  "log_Fatalf msg w = (Exited 1, log_Printf msg w)"

definition enter :: "stage \<Rightarrow> world \<Rightarrow> world" where
  "enter s w = w\<lparr>stages := stages w @ [s]\<rparr>"

definition tufDir :: "env \<Rightarrow> path" where
  "tufDir e = Join (HOME e) ''.sigstore''"

definition cleanupLocalTUFRepository :: "env \<Rightarrow> world \<Rightarrow> error option \<times> world" where
  "cleanupLocalTUFRepository e w =
     (case os_RemoveAll (faults e) (disk w) (tufDir e) of
        (Some err, d) \<Rightarrow> (Some (ErrRemoveTUF (concat (tufDir e))), w\<lparr>disk := d\<rparr>)
      | (None, d) \<Rightarrow> (None, w\<lparr>disk := d\<rparr>))"

text \<open>Lines 42 to 58: the working directory and the first resolution of \<^verbatim>\<open>root.json\<close>.\<close>

definition run_start :: "env \<Rightarrow> string \<Rightarrow> world \<Rightarrow> (outcome \<times> world) + (path \<times> world)" where
  "run_start e mirror w =
     (case os_MkdirTemp (faults e) (disk w) (Join (TempDir e) (temp_name e ''tuf-repository-*'')) of
        Inl err \<Rightarrow> Inl (log_Fatalf ''Error: could not create temporary directory'' w)
      | Inr (temporaryWorkingDirectory, d) \<Rightarrow>
          (case resolve e mirror ''root.json'' (w\<lparr>disk := d\<rparr>) of
             ((latestRootName, err), w1) \<Rightarrow>
               if latestRootName = []
               then Inl (log_Fatalf
                      ''Error: could not get the latest root.json file from the mirror'' w1)
               else Inr (temporaryWorkingDirectory,
                         log_Printf (''mirror '' @ mirror @ '', root '' @ mirror @ ''/''
                                      @ latestRootName) w1)))"

text \<open>
  Lines 61 to 86: the loop over the four metadata files. The error of
  \<^verbatim>\<open>GetLatestMetadataName\<close> is dropped. When \<^verbatim>\<open>os.Create\<close> fails, its file is
  \<^verbatim>\<open>nil\<close>, and the argument \<^verbatim>\<open>metadataFile.Name()\<close> of the call of \<^verbatim>\<open>log.Fatalf\<close>
  dereferences it: the run panics before anything is logged. \<open>rootJSONFile\<close> is
  \<open>None\<close> for the empty \<^verbatim>\<open>&os.File{}\<close> it starts as.
\<close>

definition metadatas :: "string list" where
  "metadatas = [''root.json'', ''snapshot.json'', ''targets.json'', ''timestamp.json'']"

definition metadata_name :: "env \<Rightarrow> string \<Rightarrow> string \<Rightarrow> world \<Rightarrow> string \<times> world" where
  \<comment> \<open>lines 64 to 69: the name to fetch, and the state after finding it\<close>
  "metadata_name e mirror metadata w =
     (if metadata = ''timestamp.json'' then (''timestamp.json'', w)
      else (case resolve e mirror metadata w of ((name, err), w') \<Rightarrow> (name, w')))"

fun fetch_loop ::
  "env \<Rightarrow> string \<Rightarrow> path \<Rightarrow> string list \<Rightarrow> os_File option \<Rightarrow> world
     \<Rightarrow> (outcome \<times> world) + (os_File option \<times> world)" where
  "fetch_loop e mirror tmp [] rootJSONFile w = Inr (rootJSONFile, w)"
| "fetch_loop e mirror tmp (metadata # rest) rootJSONFile w =
     (case metadata_name e mirror metadata w of
        (metadataName, w1) \<Rightarrow>
          (case os_Create (faults e) (disk w1) (Join tmp metadataName) of
             Inl err \<Rightarrow> Inl (Panicked, w1)
           | Inr (metadataFile, d) \<Rightarrow>
               (case DownloadFile e metadataFile (mirror @ ''/'' @ metadataName)
                        (w1\<lparr>disk := d\<rparr>) of
                  (Some err, w2) \<Rightarrow> Inl (log_Fatalf ''Error: could not download'' w2)
                | (None, w2) \<Rightarrow>
                    fetch_loop e mirror tmp rest
                      (if metadata = ''root.json'' then Some metadataFile else rootJSONFile)
                      w2)))"

definition run_fetch ::
  "env \<Rightarrow> string \<Rightarrow> path \<Rightarrow> world \<Rightarrow> (outcome \<times> world) + (os_File option \<times> world)" where
  "run_fetch e mirror tmp w = fetch_loop e mirror tmp metadatas None w"

text \<open>
  Lines 88 to 109: the trust store is deleted, then the trust library initialises it
  from the root document (\<^verbatim>\<open>nil\<close> when the file cannot be read: the error of
  \<^verbatim>\<open>os.ReadFile\<close> is dropped) and reports the root status.
\<close>

definition trust_init ::
  "env \<Rightarrow> string \<Rightarrow> os_File option \<Rightarrow> world \<Rightarrow> (outcome \<times> world) + (os_File \<times> world)" where
  "trust_init e mirror rootJSONFile w =
     (case cleanupLocalTUFRepository e w of
        (Some err, w1) \<Rightarrow>
          Inl (log_Fatalf ''Error: could not cleanup local TUF repository'' w1)
      | (None, w1) \<Rightarrow>
          (case rootJSONFile of
             None \<Rightarrow> Inl (Panicked, w1)
           | Some f \<Rightarrow>
               (case tuf_Initialize e (disk w1) mirror
                        (case os_ReadFile (faults e) (disk w1) (Name f) of
                           Inl err \<Rightarrow> None
                         | Inr rootJSON \<Rightarrow> Some rootJSON) of
                  (Some err, d) \<Rightarrow>
                    Inl (log_Fatalf ''Error: could not initialize TUF''
                           (enter TrustInit (w1\<lparr>disk := d\<rparr>)))
                | (None, d) \<Rightarrow>
                    (case tuf_GetRootStatus e d of
                       Inl err \<Rightarrow>
                         Inl (log_Fatalf ''Error: could not get root status''
                                (enter RootStatus (enter TrustInit (w1\<lparr>disk := d\<rparr>))))
                     | Inr rootStatus \<Rightarrow>
                         (case json_MarshalIndent e rootStatus of
                            Inl err \<Rightarrow>
                              Inl (log_Fatalf ''Error: could not marshal root status to JSON''
                                     (enter RootStatus (enter TrustInit (w1\<lparr>disk := d\<rparr>))))
                          | Inr rootStatusJSON \<Rightarrow>
                              Inr (f, log_Printf (''Root status: '' @ rootStatusJSON)
                                        (enter RootStatus
                                           (enter TrustInit (w1\<lparr>disk := d\<rparr>)))))))))"

text \<open>Lines 111 to 117: the verified targets move into the working directory.\<close>

definition originalTargetsDir :: "env \<Rightarrow> path" where
  "originalTargetsDir e = Join (Join (Join (HOME e) ''.sigstore'') ''root'') ''targets''"

definition restructure :: "env \<Rightarrow> path \<Rightarrow> world \<Rightarrow> (outcome \<times> world) + world" where
  "restructure e tmp w =
     (case os_Rename (faults e) (disk w) (originalTargetsDir e) (Join tmp ''targets'') of
        (Some err, d) \<Rightarrow>
          Inl (log_Fatalf ''Failed to move directory'' (enter Restructure (w\<lparr>disk := d\<rparr>)))
      | (None, d) \<Rightarrow> Inr (enter Restructure (w\<lparr>disk := d\<rparr>)))"

text \<open>Lines 119 to 154: archive, encode, print.\<close>

definition package :: "env \<Rightarrow> string \<Rightarrow> path \<Rightarrow> os_File \<Rightarrow> world \<Rightarrow> outcome \<times> world" where
  "package e mirror tmp rootJSONFile w =
     (case os_CreateTemp (faults e) (disk w)
             (Join (TempDir e) (temp_name e ''repository-*.tar.gz'')) of
        Inl err \<Rightarrow>
          log_Fatalf ''Error: could not create temporary file for repository archive'' w
      | Inr (repositoryArchive, d) \<Rightarrow>
          (case CompressDirectory e tmp (Name repositoryArchive)
                  (enter Archive (w\<lparr>disk := d\<rparr>)) of
             (Some err, w1) \<Rightarrow>
               log_Fatalf ''Error: could not compress repository directory'' w1
           | (None, w1) \<Rightarrow>
               (case EncodeBase64 (faults e) (disk w1) repositoryArchive of
                  (b64RepositoryArchive, Some err) \<Rightarrow>
                    log_Fatalf ''Error: could not base64-encode repository archive''
                      (enter Encode w1)
                | (b64RepositoryArchive, None) \<Rightarrow>
                    (case EncodeBase64 (faults e) (disk w1) rootJSONFile of
                       (b64RootJSON, Some err) \<Rightarrow>
                         log_Fatalf ''Error: could not base64-encode root.json''
                           (enter Encode w1)
                     | (b64RootJSON, None) \<Rightarrow>
                         (Returned,
                          (enter Emit (enter Encode w1))
                            \<lparr>stdout := stdout w1 @
                               [trustRootYAML mirror (clock e) b64RootJSON
                                  b64RepositoryArchive @ [CHR 0x0A]]\<rparr>)))))"

text \<open>
  The run in prefixes, each the one before it followed by one more stage, and the
  whole of \<^verbatim>\<open>main\<close>, with the deferred removal of the working directory.
\<close>

definition run_trust ::
  "env \<Rightarrow> string \<Rightarrow> path \<Rightarrow> world \<Rightarrow> (outcome \<times> world) + (os_File \<times> world)" where
  "run_trust e mirror tmp w =
     (case run_fetch e mirror tmp w of
        Inl r \<Rightarrow> Inl r
      | Inr (rootJSONFile, w1) \<Rightarrow> trust_init e mirror rootJSONFile w1)"

definition run_restructure ::
  "env \<Rightarrow> string \<Rightarrow> path \<Rightarrow> world \<Rightarrow> (outcome \<times> world) + (os_File \<times> world)" where
  "run_restructure e mirror tmp w =
     (case run_trust e mirror tmp w of
        Inl r \<Rightarrow> Inl r
      | Inr (rootJSONFile, w1) \<Rightarrow>
          (case restructure e tmp w1 of
             Inl r \<Rightarrow> Inl r
           | Inr w2 \<Rightarrow> Inr (rootJSONFile, w2)))"

definition run_body :: "env \<Rightarrow> string \<Rightarrow> path \<Rightarrow> world \<Rightarrow> outcome \<times> world" where
  "run_body e mirror tmp w =
     (case run_restructure e mirror tmp w of
        Inl r \<Rightarrow> r
      | Inr (rootJSONFile, w1) \<Rightarrow> package e mirror tmp rootJSONFile w1)"

definition deferred :: "env \<Rightarrow> path \<Rightarrow> outcome \<times> world \<Rightarrow> outcome \<times> world" where
  "deferred e tmp r =
     (case r of
        (Exited n, w) \<Rightarrow> (Exited n, w)
      | (out, w) \<Rightarrow> (out, w\<lparr>disk := snd (os_RemoveAll (faults e) (disk w) tmp)\<rparr>))"

definition main :: "env \<Rightarrow> string \<Rightarrow> bool \<Rightarrow> world \<Rightarrow> outcome \<times> world" where
  "main e mirror help w =
     (if help then (Exited 0, log_Printf ''Usage'' w)
      else (case run_start e mirror w of
              Inl r \<Rightarrow> r
            | Inr (tmp, w1) \<Rightarrow> deferred e tmp (run_body e mirror tmp w1)))"

text \<open>
  The name a role's file has in the working directory: a versioned name of the role,
  or \<^verbatim>\<open>timestamp.json\<close> itself.
\<close>

definition role_name :: "string \<Rightarrow> string \<Rightarrow> bool" where
  "role_name role n \<longleftrightarrow>
     (if role = ''timestamp.json'' then n = ''timestamp.json'' else re_matches role n)"

section \<open>A small concrete environment\<close>

text \<open>
  An environment and a starting state to run the pipeline on: nothing fails in the
  operating system, the home directory and the temporary directory exist and are
  empty, temporary names are the patterns themselves, and the trust library fills
  the trust store with a root directory that holds one verified target.
\<close>

definition example_tuf :: "node \<Rightarrow> string \<Rightarrow> bytes option \<Rightarrow> error option \<times> node" where
  "example_tuf d mirror rootJSON =
     (case set_node d [''home'', ''.sigstore'']
             (Dir [(''root'', Dir [(''targets'', Dir [(''trusted_root.json'', File ''{}'')])])]) of
        None \<Rightarrow> (Some ErrTUF, d)
      | Some d' \<Rightarrow> (None, d'))"

definition example_env :: "(nat \<Rightarrow> string \<Rightarrow> http_result) \<Rightarrow> env" where
  "example_env answers =
     \<lparr>net = answers, faults = (\<lambda>op. False), HOME = [''home''], TempDir = [''tmp''],
      temp_name = (\<lambda>pattern. pattern), clock = 1700000000,
      tuf_Initialize = example_tuf, tuf_GetRootStatus = (\<lambda>d. Inr ''ok''),
      json_MarshalIndent = (\<lambda>s. Inr s), tar_gz = (\<lambda>entries. ''tgz'')\<rparr>"

definition example_world :: world where
  "example_world =
     \<lparr>disk = Dir [(''home'', Dir []), (''tmp'', Dir [])],
      gets = [], stdout = [], stderr = [], stages = []\<rparr>"

text \<open>A mirror whose listing names version 1 of each role and that serves every file.\<close>

definition example_listing :: string where
  "example_listing = ''1.root.json'' @ [CHR 0x0A] @ ''1.snapshot.json'' @ [CHR 0x0A]
                       @ ''1.targets.json''"

definition good_mirror :: "nat \<Rightarrow> string \<Rightarrow> http_result" where
  "good_mirror n url =
     (if url = ''https://m'' then Response 200 (Body example_listing)
      else Response 200 (Body ''{}''))"

text \<open>A mirror that serves its listing and answers every other request with 404.\<close>

definition mirror_404 :: "nat \<Rightarrow> string \<Rightarrow> http_result" where
  "mirror_404 n url =
     (if url = ''https://m'' then Response 200 (Body example_listing)
      else Response 404 (Body ''not found''))"


text \<open>
  The states of the run on the good mirror after the fetching, after the trust
  initialization and after the move of the targets.
\<close>

definition example_fetched :: world where
  "example_fetched =
     \<lparr>disk = Dir [(''home'', Dir []),
                   (''tmp'', Dir [(''tuf-repository-*'',
                      Dir [(''1.root.json'', File ''{}''), (''1.snapshot.json'', File ''{}''),
                           (''1.targets.json'', File ''{}''), (''timestamp.json'', File ''{}'')])])],
       gets = [''https://m'', ''https://m'', ''https://m/1.root.json'',
               ''https://m'', ''https://m/1.snapshot.json'',
               ''https://m'', ''https://m/1.targets.json'', ''https://m/timestamp.json''],
       stdout = [],
       stderr = [''mirror https://m, root https://m/1.root.json''],
       stages = []\<rparr>"

definition example_trusted :: world where
  "example_trusted =
     \<lparr>disk = Dir [(''home'', Dir [(''.sigstore'', Dir [(''root'',
                      Dir [(''targets'', Dir [(''trusted_root.json'', File ''{}'')])])])]),
                   (''tmp'', Dir [(''tuf-repository-*'',
                      Dir [(''1.root.json'', File ''{}''), (''1.snapshot.json'', File ''{}''),
                           (''1.targets.json'', File ''{}''), (''timestamp.json'', File ''{}'')])])],
       gets = [''https://m'', ''https://m'', ''https://m/1.root.json'',
               ''https://m'', ''https://m/1.snapshot.json'',
               ''https://m'', ''https://m/1.targets.json'', ''https://m/timestamp.json''],
       stdout = [],
       stderr = [''mirror https://m, root https://m/1.root.json'', ''Root status: ok''],
       stages = [TrustInit, RootStatus]\<rparr>"

definition example_moved :: world where
  "example_moved =
     \<lparr>disk = Dir [(''home'', Dir [(''.sigstore'', Dir [(''root'', Dir [])])]),
                   (''tmp'', Dir [(''tuf-repository-*'',
                      Dir [(''1.root.json'', File ''{}''), (''1.snapshot.json'', File ''{}''),
                           (''1.targets.json'', File ''{}''), (''timestamp.json'', File ''{}''),
                           (''targets'', Dir [(''trusted_root.json'', File ''{}'')])])])],
       gets = [''https://m'', ''https://m'', ''https://m/1.root.json'',
               ''https://m'', ''https://m/1.snapshot.json'',
               ''https://m'', ''https://m/1.targets.json'', ''https://m/timestamp.json''],
       stdout = [],
       stderr = [''mirror https://m, root https://m/1.root.json'', ''Root status: ok''],
       stages = [TrustInit, RootStatus, Restructure]\<rparr>"

text \<open>A trust library that succeeds and writes nothing.\<close>

definition idle_tuf :: "node \<Rightarrow> string \<Rightarrow> bytes option \<Rightarrow> error option \<times> node" where
  "idle_tuf d mirror rootJSON = (None, d)"

section \<open>Properties of the parser and the resolver\<close>

lemma split_lines_ne: "split_lines s \<noteq> []"
  by (induction s) (auto split: list.splits)

lemma dot_not_digit: "\<not> is_digit CHR ''.''"
  by (simp add: is_digit_def)

lemma match_here_sound:
  assumes "match_here pat s = Some m"
  shows "re_matches pat m \<and> (\<exists>post. s = m @ post)"
proof -
  let ?ds = "takeWhile is_digit s" and ?rest = "dropWhile is_digit s"
  from assms have ne: "?ds \<noteq> []" and tk: "take (Suc (length pat)) ?rest = CHR ''.'' # pat"
    and m: "m = ?ds @ CHR ''.'' # pat"
    by (auto simp: match_here_def Let_def split: if_splits)
  have "\<forall>c \<in> set ?ds. is_digit c" by (auto dest: set_takeWhileD)
  with ne m have "re_matches pat m" unfolding re_matches_def by blast
  moreover have "s = ?ds @ ?rest" by simp
  moreover have "?rest = (CHR ''.'' # pat) @ drop (Suc (length pat)) ?rest"
    using tk by (metis append_take_drop_id)
  ultimately show ?thesis using m by (metis append.assoc append_Cons)
qed

lemma match_here_complete:
  assumes "re_matches pat m"
  shows "match_here pat (m @ post) = Some m"
proof -
  from assms obtain ds where ne: "ds \<noteq> []" and dg: "\<forall>c \<in> set ds. is_digit c"
    and m: "m = ds @ CHR ''.'' # pat" unfolding re_matches_def by blast
  have s: "m @ post = ds @ (CHR ''.'' # pat @ post)" using m by simp
  have "takeWhile is_digit (m @ post) = ds"
    unfolding s using dg dot_not_digit by (simp add: takeWhile_append2)
  moreover have "dropWhile is_digit (m @ post) = CHR ''.'' # pat @ post"
    unfolding s using dg dot_not_digit by (simp add: dropWhile_append2)
  ultimately show ?thesis using ne m by (simp add: match_here_def)
qed

lemma match_here_Nil: "match_here pat [] = None"
  by (simp add: match_here_def)

lemma Find_sound:
  "FindStringSubmatch pat line = Some m \<Longrightarrow>
     \<exists>pre post. line = pre @ m @ post \<and> re_matches pat m \<and>
        (\<forall>k < length pre. match_here pat (drop k line) = None)"
proof (induction line)
  case Nil then show ?case by simp
next
  case (Cons c cs)
  show ?case
  proof (cases "match_here pat (c # cs)")
    case (Some m')
    with Cons.prems have "m' = m" by simp
    with Some match_here_sound[of pat "c # cs" m] obtain post where
      "re_matches pat m" "c # cs = [] @ m @ post" by auto
    then show ?thesis by (metis length_0_conv not_less_zero list.size(3))
  next
    case None
    with Cons.prems have "FindStringSubmatch pat cs = Some m" by simp
    from Cons.IH[OF this] obtain pre post where
      l: "cs = pre @ m @ post" and r: "re_matches pat m"
      and e: "\<forall>k < length pre. match_here pat (drop k cs) = None" by blast
    have "\<forall>k < length (c # pre). match_here pat (drop k (c # cs)) = None"
    proof (intro allI impI)
      fix k assume "k < length (c # pre)"
      then show "match_here pat (drop k (c # cs)) = None"
        using None e by (cases k) auto
    qed
    moreover have "c # cs = (c # pre) @ m @ post" using l by simp
    ultimately show ?thesis using r by blast
  qed
qed

lemma Find_None_iff:
  "FindStringSubmatch pat line = None \<longleftrightarrow>
     \<not> (\<exists>pre m post. line = pre @ m @ post \<and> re_matches pat m)"
proof (induction line)
  case Nil
  then show ?case by (auto simp: re_matches_def)
next
  case (Cons c cs)
  show ?case
  proof (cases "match_here pat (c # cs)")
    case (Some m)
    from match_here_sound[OF Some] obtain post where
      "re_matches pat m" "c # cs = [] @ m @ post" by auto
    then have "\<exists>pre m post. c # cs = pre @ m @ post \<and> re_matches pat m" by blast
    then show ?thesis using Some by simp
  next
    case None
    have "(\<exists>pre m post. c # cs = pre @ m @ post \<and> re_matches pat m) \<longleftrightarrow>
          (\<exists>pre m post. cs = pre @ m @ post \<and> re_matches pat m)" (is "?L \<longleftrightarrow> ?R")
    proof
      assume ?L
      then obtain pre m post where l: "c # cs = pre @ m @ post" and r: "re_matches pat m" by blast
      show ?R
      proof (cases pre)
        case Nil
        with l r None match_here_complete[of pat m post] show ?thesis by simp
      next
        case (Cons p ps)
        with l have "cs = ps @ m @ post" by simp
        with r show ?thesis by blast
      qed
    next
      assume ?R
      then obtain pre m post where "cs = pre @ m @ post" "re_matches pat m" by blast
      then have "c # cs = (c # pre) @ m @ post" by simp
      with \<open>re_matches pat m\<close> show ?L by blast
    qed
    with None Cons.IH show ?thesis by simp
  qed
qed

lemma collect_files_eq:
  "collect_files pat lines files = files @ List.map_filter (FindStringSubmatch pat) lines"
  by (induction lines arbitrary: files) (auto simp: List.map_filter_simps split: option.splits)

lemma candidates_eq:
  "candidates pat listing = List.map_filter (FindStringSubmatch pat) (split_lines listing)"
  by (simp add: candidates_def collect_files_eq)

lemma sort_last_Max:
  fixes xs :: "'a::linorder list"
  assumes "xs \<noteq> []"
  shows "sort xs ! (length (sort xs) - 1) = Max (set xs)"
proof -
  let ?s = "sort xs"
  have ne: "?s \<noteq> []" using assms by (metis length_0_conv length_sort)
  have l: "?s ! (length ?s - 1) = last ?s" using ne by (simp add: last_conv_nth)
  have "last ?s \<in> set xs" using ne by (metis last_in_set set_sort)
  moreover have "\<forall>y \<in> set xs. y \<le> last ?s"
  proof
    fix y assume "y \<in> set xs"
    then have "y \<in> set ?s" by simp
    then obtain i where i: "i < length ?s" "?s ! i = y" by (meson in_set_conv_nth)
    have "?s ! i \<le> ?s ! (length ?s - 1)"
      using i ne by (intro sorted_nth_mono) auto
    with i l show "y \<le> last ?s" by simp
  qed
  ultimately have "Max (set xs) = last ?s" by (intro Max_eqI) auto
  with l show ?thesis by simp
qed

lemma is_digit_val: "is_digit c \<Longrightarrow> digit_val c < 10"
  unfolding is_digit_def digit_val_def less_eq_char_def by auto

lemma is_digit_mono: "is_digit a \<Longrightarrow> is_digit b \<Longrightarrow> (a < b \<longleftrightarrow> digit_val a < digit_val b)"
  unfolding is_digit_def digit_val_def less_eq_char_def less_char_def by auto

lemma is_digit_inj:
  assumes "is_digit a" "is_digit b" "digit_val a = digit_val b"
  shows "a = b"
proof -
  have "(of_char a :: nat) - 48 = of_char b - 48"
    and "48 \<le> (of_char a :: nat)" and "48 \<le> (of_char b :: nat)"
    using assms unfolding is_digit_def digit_val_def less_eq_char_def by simp_all
  then have "(of_char a :: nat) = of_char b" by linarith
  then show ?thesis by simp
qed

lemma foldl_decimal: "foldl decimal_step a ds = a * 10 ^ length ds + foldl decimal_step 0 ds"
proof (induction ds arbitrary: a)
  case Nil then show ?case by simp
next
  case (Cons d ds)
  have s1: "decimal_step a d = 10 * a + digit_val d" and s0: "decimal_step 0 d = digit_val d"
    by (simp_all add: decimal_step_def)
  have "foldl decimal_step a (d # ds) = foldl decimal_step (10 * a + digit_val d) ds"
    by (simp only: foldl_Cons s1)
  also have "\<dots> = (10 * a + digit_val d) * 10 ^ length ds + foldl decimal_step 0 ds"
    by (rule Cons.IH)
  finally have L: "foldl decimal_step a (d # ds)
      = (10 * a + digit_val d) * 10 ^ length ds + foldl decimal_step 0 ds" .
  have "foldl decimal_step 0 (d # ds) = foldl decimal_step (digit_val d) ds"
    by (simp only: foldl_Cons s0)
  also have "\<dots> = digit_val d * 10 ^ length ds + foldl decimal_step 0 ds"
    by (rule Cons.IH)
  finally have R: "foldl decimal_step 0 (d # ds)
      = digit_val d * 10 ^ length ds + foldl decimal_step 0 ds" .
  show ?case unfolding L R by (simp add: algebra_simps)
qed

lemma decimal_Cons: "decimal (d # ds) = digit_val d * 10 ^ length ds + decimal ds"
proof -
  have "decimal_step 0 d = digit_val d" by (simp add: decimal_step_def)
  then have "foldl decimal_step 0 (d # ds) = foldl decimal_step (digit_val d) ds"
    by (simp only: foldl_Cons)
  then show ?thesis unfolding decimal_def using foldl_decimal[of "digit_val d" ds] by simp
qed

lemma decimal_Nil: "decimal [] = 0"
  by (simp add: decimal_def)

lemma decimal_bound: "\<forall>c \<in> set ds. is_digit c \<Longrightarrow> decimal ds < 10 ^ length ds"
proof (induction ds)
  case Nil then show ?case by (simp add: decimal_Nil)
next
  case (Cons d ds)
  then have "decimal ds < 10 ^ length ds" and "digit_val d \<le> 9"
    using is_digit_val[of d] by auto
  then have "digit_val d * 10 ^ length ds + decimal ds < 9 * 10 ^ length ds + 10 ^ length ds"
    by (meson add_le_less_mono mult_le_mono1)
  then show ?case by (simp add: decimal_Cons)
qed

lemma decimal_less:
  "length a = length b \<Longrightarrow> \<forall>c \<in> set a. is_digit c \<Longrightarrow> \<forall>c \<in> set b. is_digit c \<Longrightarrow>
     (a < b \<longleftrightarrow> decimal a < decimal b)"
proof (induction a b rule: list_induct2)
  case Nil then show ?case by simp
next
  case (Cons x xs y ys)
  let ?p = "(10::nat) ^ length xs"
  have dx: "is_digit x" and dy: "is_digit y" using Cons.prems by auto
  have bx: "decimal xs < ?p" using Cons.prems by (intro decimal_bound) auto
  have by0: "decimal ys < 10 ^ length ys" using Cons.prems by (intro decimal_bound) auto
  then have bys: "decimal ys < ?p" using Cons.hyps by simp
  have IH: "xs < ys \<longleftrightarrow> decimal xs < decimal ys" using Cons by auto
  consider "digit_val x < digit_val y" | "digit_val x = digit_val y" | "digit_val y < digit_val x"
    by linarith
  then show ?case
  proof cases
    case 1
    then have "Suc (digit_val x) \<le> digit_val y" by simp
    then have "Suc (digit_val x) * ?p \<le> digit_val y * ?p" by (rule mult_le_mono1)
    then have "digit_val x * ?p + decimal xs < digit_val y * ?p + decimal ys"
      using bx by simp
    moreover have "x < y" using 1 dx dy by (simp add: is_digit_mono)
    ultimately show ?thesis using Cons.hyps by (simp add: decimal_Cons)
  next
    case 2
    have "x = y" using dx dy 2 by (rule is_digit_inj)
    with IH Cons.hyps show ?thesis by (simp add: decimal_Cons)
  next
    case 3
    then have "Suc (digit_val y) \<le> digit_val x" by simp
    then have "Suc (digit_val y) * ?p \<le> digit_val x * ?p" by (rule mult_le_mono1)
    then have "digit_val y * ?p + decimal ys < digit_val x * ?p + decimal xs"
      using bys by simp
    moreover have "y < x" using 3 dx dy by (simp add: is_digit_mono)
    then have "\<not> x # xs < y # ys" by auto
    ultimately show ?thesis using Cons.hyps by (simp add: decimal_Cons)
  qed
qed

lemma decimal_le:
  assumes "length a = length b" "\<forall>c \<in> set a. is_digit c" "\<forall>c \<in> set b. is_digit c"
  shows "a \<le> b \<longleftrightarrow> decimal a \<le> decimal b"
  using decimal_less[of b a] assms by (simp add: not_less[symmetric])

lemma append_le_same_length:
  fixes a b :: "'a::linorder list"
  shows "length a = length b \<Longrightarrow> a @ x \<le> b @ y \<Longrightarrow> a \<le> b"
  by (induction a b rule: list_induct2) auto

lemma version_digits_match:
  "\<forall>c \<in> set ds. is_digit c \<Longrightarrow> version_digits (ds @ CHR ''.'' # pat) = ds"
  unfolding version_digits_def using dot_not_digit by (simp add: takeWhile_append2)

lemma re_matches_version:
  assumes "re_matches pat m"
  shows "m = version_digits m @ CHR ''.'' # pat \<and> version_digits m \<noteq> []
         \<and> (\<forall>c \<in> set (version_digits m). is_digit c)"
proof -
  from assms obtain ds where "ds \<noteq> []" "\<forall>c \<in> set ds. is_digit c" "m = ds @ CHR ''.'' # pat"
    unfolding re_matches_def by blast
  then show ?thesis using version_digits_match[of ds pat] by simp
qed

lemma version_le:
  assumes a: "re_matches pat a" and b: "re_matches pat b"
    and len: "length (version_digits a) = length (version_digits b)" and le: "a \<le> b"
  shows "version_of a \<le> version_of b"
proof -
  have "version_digits a @ CHR ''.'' # pat \<le> version_digits b @ CHR ''.'' # pat"
    using le re_matches_version[OF a] re_matches_version[OF b] by simp
  then have "version_digits a \<le> version_digits b"
    using len by (rule append_le_same_length[rotated])
  then show ?thesis
    unfolding version_of_def
    using decimal_le[OF len] re_matches_version[OF a] re_matches_version[OF b] by simp
qed

lemma map_filter_set: "set (List.map_filter f xs) = {y. \<exists>x \<in> set xs. f x = Some y}"
  by (induction xs) (auto simp: List.map_filter_simps split: option.splits)

lemma candidates_set:
  "set (candidates pat listing) = {m. \<exists>line \<in> set (split_lines listing). FindStringSubmatch pat line = Some m}"
  by (simp add: candidates_eq map_filter_set)

lemma candidates_match: "m \<in> set (candidates pat listing) \<Longrightarrow> re_matches pat m"
  using Find_sound by (fastforce simp: candidates_set)

lemma has_match_iff: "has_match pat line \<longleftrightarrow> FindStringSubmatch pat line \<noteq> None"
  by (simp add: has_match_def Find_None_iff)

lemma Find_leftmost:
  assumes "FindStringSubmatch pat line = Some m"
  shows "leftmost_match pat line m"
proof -
  from Find_sound[OF assms] obtain pre post where
    l: "line = pre @ m @ post" and r: "re_matches pat m"
    and e: "\<forall>k < length pre. match_here pat (drop k line) = None" by blast
  have "length pre \<le> length pre'" if l': "line = pre' @ m' @ post'" and r': "re_matches pat m'"
    for pre' m' post'
  proof (rule ccontr)
    assume "\<not> length pre \<le> length pre'"
    then have "length pre' < length pre" by simp
    with e have "match_here pat (drop (length pre') line) = None" by blast
    moreover have "drop (length pre') line = m' @ post'" using l' by simp
    ultimately show False using match_here_complete[OF r', of post'] by simp
  qed
  with l r show ?thesis unfolding leftmost_match_def by blast
qed

lemma re_matches_prefix_unique:
  assumes a: "re_matches pat a" and b: "re_matches pat b" and eq: "a @ x = b @ y"
  shows "a = b"
proof -
  have "match_here pat (a @ x) = Some a" using match_here_complete[OF a] .
  moreover have "match_here pat (b @ y) = Some b" using match_here_complete[OF b] .
  ultimately show ?thesis using eq by simp
qed

lemma leftmost_match_unique:
  assumes "leftmost_match pat line a" and "leftmost_match pat line b"
  shows "a = b"
proof -
  from assms(1) obtain pa qa where la: "line = pa @ a @ qa" and ra: "re_matches pat a"
    and ma: "\<And>pre' m' post'. line = pre' @ m' @ post' \<Longrightarrow> re_matches pat m' \<Longrightarrow> length pa \<le> length pre'"
    unfolding leftmost_match_def by blast
  from assms(2) obtain pb qb where lb: "line = pb @ b @ qb" and rb: "re_matches pat b"
    and mb: "\<And>pre' m' post'. line = pre' @ m' @ post' \<Longrightarrow> re_matches pat m' \<Longrightarrow> length pb \<le> length pre'"
    unfolding leftmost_match_def by blast
  have "length pa = length pb" using ma[OF lb rb] mb[OF la ra] by simp
  then have "a @ qa = b @ qb" using la lb by (metis append_eq_append_conv)
  then show ?thesis using ra rb by (rule re_matches_prefix_unique[rotated 2])
qed

lemma collect_all2:
  "list_all2 (leftmost_match pat) (filter (has_match pat) lines)
     (List.map_filter (FindStringSubmatch pat) lines)"
proof (induction lines)
  case Nil show ?case by (simp add: List.map_filter_simps)
next
  case (Cons l ls)
  show ?case
  proof (cases "FindStringSubmatch pat l")
    case None
    then have "\<not> has_match pat l" by (simp add: has_match_iff)
    with None Cons show ?thesis by (simp add: List.map_filter_simps)
  next
    case (Some m)
    then have "has_match pat l" by (simp add: has_match_iff)
    with Some Cons Find_leftmost[OF Some] show ?thesis by (simp add: List.map_filter_simps)
  qed
qed

subsection \<open>Latest-Version Resolver\<close>

lemma Find_iff_leftmost:
  "FindStringSubmatch pat line = Some m \<longleftrightarrow> leftmost_match pat line m"
proof
  assume "FindStringSubmatch pat line = Some m"
  then show "leftmost_match pat line m" by (rule Find_leftmost)
next
  assume l: "leftmost_match pat line m"
  then have "has_match pat line" unfolding leftmost_match_def has_match_def by blast
  then obtain m' where f: "FindStringSubmatch pat line = Some m'"
    by (auto simp: has_match_iff)
  from leftmost_match_unique[OF Find_leftmost[OF f] l] f
  show "FindStringSubmatch pat line = Some m" by simp
qed

lemma candidates_set_spec: "set (candidates pat listing) = candidate_set pat listing"
  by (simp add: candidates_set candidate_set_def Find_iff_leftmost)

text \<open>
  Claim C1. The candidate set of a listing holds, for each of its lines, the leftmost
  piece of the line that consists of digits, a dot and the role's pattern. When the
  listing is fetched and this set is not empty, \<^verbatim>\<open>GetLatestMetadataName\<close> returns,
  with a \<^verbatim>\<open>nil\<close> error, its greatest element in byte-wise lexicographic order: a
  member of the set, hence a name of the role's pattern, that every candidate is below.
  When all candidates have version numbers of one digit-length \<open>n\<close>, no candidate has
  a greater version number than the returned name. When the candidates of the listing
  are \<^verbatim>\<open>1.root.json\<close> and \<^verbatim>\<open>2.root.json\<close>, the returned name is \<^verbatim>\<open>2.root.json\<close>.
\<close>

theorem resolver_returns_greatest:
  assumes "get mirror = Response StatusOK (Body listing)"
    and "candidate_set pat listing \<noteq> {}"
  shows "GetLatestMetadataName get mirror pat = (Max (candidate_set pat listing), None)
    \<and> fst (GetLatestMetadataName get mirror pat) \<in> candidate_set pat listing
    \<and> (\<forall>c \<in> candidate_set pat listing. c \<le> fst (GetLatestMetadataName get mirror pat))
    \<and> re_matches pat (fst (GetLatestMetadataName get mirror pat))
    \<and> ((\<forall>c \<in> candidate_set pat listing. length (version_digits c) = n) \<longrightarrow>
         (\<forall>c \<in> candidate_set pat listing.
             version_of c \<le> version_of (fst (GetLatestMetadataName get mirror pat))))
    \<and> (candidate_set pat listing = {''1.root.json'', ''2.root.json''} \<longrightarrow>
         fst (GetLatestMetadataName get mirror pat) = ''2.root.json'')"
proof -
  let ?C = "candidates pat listing"
  let ?S = "candidate_set pat listing"
  let ?r = "fst (GetLatestMetadataName get mirror pat)"
  have S: "set ?C = ?S" by (rule candidates_set_spec)
  have neC: "?C \<noteq> []" using assms(2) S by auto
  have "GetLatestMetadataName get mirror pat = (Max (set ?C), None)"
    using assms(1) neC sort_last_Max[of ?C] by (simp add: GetLatestMetadataName_def Let_def)
  then have res: "GetLatestMetadataName get mirror pat = (Max ?S, None)" unfolding S .
  then have r: "?r = Max ?S" by simp
  have fin: "finite ?S" unfolding S[symmetric] by simp
  have mem: "?r \<in> ?S" unfolding r using fin assms(2) by (rule Max_in)
  have ub: "\<forall>c \<in> ?S. c \<le> ?r" unfolding r using fin by simp
  have rm: "re_matches pat c" if "c \<in> ?S" for c
    using that candidates_match[of c pat listing] unfolding S by simp
  have num: "\<forall>c \<in> ?S. version_of c \<le> version_of ?r"
    if u: "\<forall>c \<in> ?S. length (version_digits c) = n"
  proof
    fix c assume c: "c \<in> ?S"
    have "length (version_digits c) = length (version_digits ?r)" using u c mem by simp
    then show "version_of c \<le> version_of ?r"
      using rm[OF c] rm[OF mem] ub c by (intro version_le) auto
  qed
  have ex: "?r = ''2.root.json''" if "?S = {''1.root.json'', ''2.root.json''}"
    unfolding r that by simp
  from res mem ub rm[OF mem] num ex show ?thesis by (intro conjI impI) auto
qed

lemma listing_with_other_lines:
  "candidates ''root.json''
     (''index of /'' @ [CHR 0x0A] @ ''<a>1.root.json</a>'' @ [CHR 0x0A]
        @ ''<a>2.root.json</a>'' @ [CHR 0x0A] @ ''7.snapshot.json'')
    = [''1.root.json'', ''2.root.json'']"
  by (simp add: candidates_def match_here_def is_digit_def)

lemma vd1: "version_digits ''1.root.json'' = ''1''" "version_digits ''2.root.json'' = ''2''"
  by (simp_all add: version_digits_def is_digit_def)

theorem resolver_returns_greatest_witness:
  "GetLatestMetadataName
      (\<lambda>url. Response StatusOK
         (Body (''index of /'' @ [CHR 0x0A] @ ''<a>1.root.json</a>'' @ [CHR 0x0A]
                 @ ''<a>2.root.json</a>'' @ [CHR 0x0A] @ ''7.snapshot.json'')))
      ''https://mirror.example'' ''root.json'' = (''2.root.json'', None)
   \<and> candidate_set ''root.json''
        (''index of /'' @ [CHR 0x0A] @ ''<a>1.root.json</a>'' @ [CHR 0x0A]
           @ ''<a>2.root.json</a>'' @ [CHR 0x0A] @ ''7.snapshot.json'')
       = {''1.root.json'', ''2.root.json''}
   \<and> re_matches ''root.json'' ''2.root.json''
   \<and> version_of ''1.root.json'' \<le> version_of ''2.root.json''"
proof -
  let ?L = "''index of /'' @ [CHR 0x0A] @ ''<a>1.root.json</a>'' @ [CHR 0x0A]
              @ ''<a>2.root.json</a>'' @ [CHR 0x0A] @ ''7.snapshot.json''"
  let ?get = "\<lambda>url::string. Response StatusOK (Body ?L)"
  let ?r = "GetLatestMetadataName ?get ''https://mirror.example'' ''root.json''"
  have cs: "candidate_set ''root.json'' ?L = {''1.root.json'', ''2.root.json''}"
    unfolding candidates_set_spec[symmetric] listing_with_other_lines by simp
  have h2: "candidate_set ''root.json'' ?L \<noteq> {}" unfolding cs by simp
  note t = resolver_returns_greatest[of ?get "''https://mirror.example''" ?L "''root.json''" 1,
      OF refl h2]
  have r2: "fst ?r = ''2.root.json''"
    by (rule t[THEN conjunct2, THEN conjunct2, THEN conjunct2, THEN conjunct2, THEN conjunct2,
          THEN mp, OF cs])
  have r: "?r = (''2.root.json'', None)"
    using t[THEN conjunct1] r2 by (metis fst_conv)
  have rm: "re_matches ''root.json'' ''2.root.json''"
    using t[THEN conjunct2, THEN conjunct2, THEN conjunct2, THEN conjunct1] unfolding r2 .
  have u: "\<forall>c \<in> candidate_set ''root.json'' ?L. length (version_digits c) = 1"
    unfolding cs by (simp add: vd1)
  have "\<forall>c \<in> candidate_set ''root.json'' ?L. version_of c \<le> version_of (fst ?r)"
    by (rule t[THEN conjunct2, THEN conjunct2, THEN conjunct2, THEN conjunct2, THEN conjunct1,
          THEN mp, OF u])
  then have "version_of ''1.root.json'' \<le> version_of ''2.root.json''"
    unfolding cs r2 by simp
  with r cs rm show ?thesis by (intro conjI)
qed

subsection \<open>Mirror Directory Parser\<close>

text \<open>
  Claim C3, as stated, at a concrete listing: the single line
  \<^verbatim>\<open>1.root.json 2.root.json\<close> contains the piece \<^verbatim>\<open>2.root.json\<close>, which is in
  the language of the expression, and the candidate set does not contain it:
  \<^verbatim>\<open>FindStringSubmatch\<close> yields only the leftmost match of a line.
\<close>
theorem parser_all_matches_counterexample:
  "split_lines ''1.root.json 2.root.json'' = [''1.root.json '' @ ''2.root.json'' @ '''']
   \<and> re_matches ''root.json'' ''2.root.json''
   \<and> ''2.root.json'' \<notin> set (candidates ''root.json'' ''1.root.json 2.root.json'')"
proof -
  have "re_matches ''root.json'' ''2.root.json''"
    unfolding re_matches_def by (rule exI[of _ "''2''"]) (simp add: is_digit_def)
  moreover have "candidates ''root.json'' ''1.root.json 2.root.json'' = [''1.root.json'']"
    by (simp add: candidates_def match_here_def is_digit_def)
  ultimately show ?thesis by simp
qed

text \<open>
  Claim C3, amended. The parser scans the listing line by line and collects, in line
  order, exactly one candidate for each line that contains a match: the leftmost match
  of that line (which takes the whole run of digits it starts in). Lines without a
  match contribute nothing.
\<close>

theorem parser_leftmost_match_per_line:
  "list_all2 (leftmost_match pat) (filter (has_match pat) (split_lines listing))
     (candidates pat listing)"
  unfolding candidates_eq by (rule collect_all2)

theorem parser_leftmost_match_per_line_witness:
  "list_all2 (leftmost_match ''root.json'')
     (filter (has_match ''root.json'') [''1.root.json 2.root.json'', ''index'', ''<a>10.root.json</a>''])
     [''1.root.json'', ''10.root.json'']"
proof -
  let ?L = "''1.root.json 2.root.json'' @ [CHR 0x0A] @ ''index'' @ [CHR 0x0A] @ ''<a>10.root.json</a>''"
  have "split_lines ?L = [''1.root.json 2.root.json'', ''index'', ''<a>10.root.json</a>'']"
    by simp
  moreover have "candidates ''root.json'' ?L = [''1.root.json'', ''10.root.json'']"
    by (simp add: candidates_def match_here_def is_digit_def)
  ultimately show ?thesis
    using parser_leftmost_match_per_line[of "''root.json''" ?L] by (simp only:)
qed

lemma map_filter_all_None: "\<forall>x \<in> set xs. f x = None \<Longrightarrow> List.map_filter f xs = []"
  by (induction xs) (simp_all add: List.map_filter_simps)

subsection \<open>Resolution over an empty candidate set\<close>

text \<open>
  Claim C4. When the listing is fetched and no line of it contains a match of the
  role's pattern, the candidate set is empty and \<^verbatim>\<open>GetLatestMetadataName\<close> returns
  the empty name together with the error "no metadata files matching pattern": no
  placeholder and no partial filename.
\<close>
theorem empty_candidates_fail:
  assumes "get mirror = Response StatusOK (Body listing)"
    and "\<forall>line \<in> set (split_lines listing). \<not> has_match pat line"
  shows "candidates pat listing = [] \<and>
         GetLatestMetadataName get mirror pat = ('''', Some (ErrNoMatch pat))"
proof -
  have "List.map_filter (FindStringSubmatch pat) (split_lines listing) = []"
    using assms(2) by (intro map_filter_all_None) (simp add: has_match_iff)
  then have "candidates pat listing = []" by (simp add: candidates_eq)
  then show ?thesis using assms(1) by (simp add: GetLatestMetadataName_def)
qed

theorem empty_candidates_fail_witness:
  "candidates ''root.json'' (''index of /'' @ [CHR 0x0A] @ ''7.snapshot.json'') = [] \<and>
   GetLatestMetadataName
      (\<lambda>url. Response StatusOK (Body (''index of /'' @ [CHR 0x0A] @ ''7.snapshot.json'')))
      ''https://mirror.example'' ''root.json'' = ([], Some (ErrNoMatch ''root.json''))"
proof -
  let ?L = "''index of /'' @ [CHR 0x0A] @ ''7.snapshot.json''"
  let ?get = "\<lambda>url::string. Response StatusOK (Body ?L)"
  have h: "\<forall>line \<in> set (split_lines ?L). \<not> has_match ''root.json'' line"
    by (simp add: has_match_iff match_here_def is_digit_def)
  show ?thesis
    by (rule empty_candidates_fail[of ?get "''https://mirror.example''" ?L "''root.json''",
          OF refl h])
qed

section \<open>Properties of the encoder\<close>

lemma index_of_nth: "distinct xs \<Longrightarrow> i < length xs \<Longrightarrow> index_of (xs ! i) xs = Some i"
proof (induction xs arbitrary: i)
  case Nil then show ?case by simp
next
  case (Cons x xs)
  show ?case
  proof (cases i)
    case 0 then show ?thesis by simp
  next
    case (Suc j)
    with Cons.prems have j: "j < length xs" and d: "distinct xs" and nx: "x \<notin> set xs" by auto
    from j nx have "xs ! j \<noteq> x" by (metis nth_mem)
    with Cons.IH[OF d j] Suc show ?thesis by simp
  qed
qed

lemma length_encodeStd: "length encodeStd = 64"
  by (simp add: encodeStd_def)

lemma distinct_encodeStd: "distinct encodeStd"
  by (simp add: encodeStd_def)

lemma pad_not_in_encodeStd: "CHR ''='' \<notin> set encodeStd"
  by (simp add: encodeStd_def)

lemma b64_value_digit: "b64_value (b64_digit v) = Some (v mod 64)"
  unfolding b64_value_def b64_digit_def
  by (rule index_of_nth[OF distinct_encodeStd]) (simp add: length_encodeStd)

lemma b64_digit_not_pad: "b64_digit v \<noteq> CHR ''=''"
proof -
  have "b64_digit v \<in> set encodeStd"
    unfolding b64_digit_def by (rule nth_mem) (simp add: length_encodeStd)
  with pad_not_in_encodeStd show ?thesis by metis
qed

lemma byte_val_bound: "byte_val c < 256"
proof -
  have "(of_char c :: nat) mod 256 < 256" by (rule mod_less_divisor) simp
  then show ?thesis unfolding byte_val_def by (simp only: of_char_mod_256)
qed

lemma byte_of_val: "byte_of (byte_val c) = c"
  unfolding byte_of_def byte_val_def by simp

lemma digits64:
  fixes val :: nat
  assumes "val < 16777216"
  shows "((val div 262144 mod 64 * 64 + val div 4096 mod 64) * 64 + val div 64 mod 64) * 64
           + val mod 64 = val"
    and "(val div 262144 mod 64 * 64 + val div 4096 mod 64) * 64 + val div 64 mod 64
           = val div 64"
    and "val div 262144 mod 64 * 64 + val div 4096 mod 64 = val div 4096"
proof -
  define q1 where "q1 = val div 64"
  define q2 where "q2 = val div 4096"
  define q3 where "q3 = val div 262144"
  have d2: "q2 = q1 div 64" unfolding q1_def q2_def by (simp add: div_mult2_eq)
  have d3: "q3 = q2 div 64" unfolding q2_def q3_def by (simp add: div_mult2_eq)
  have "q3 < 64" using assms unfolding q3_def by (simp add: less_mult_imp_div_less)
  then have m3: "q3 mod 64 = q3" by simp
  have e2: "q3 * 64 + q2 mod 64 = q2" unfolding d3 by simp
  have e1: "q2 * 64 + q1 mod 64 = q1" unfolding d2 by simp
  have e0: "q1 * 64 + val mod 64 = val" unfolding q1_def by simp
  show c: "val div 262144 mod 64 * 64 + val div 4096 mod 64 = val div 4096"
    using m3 e2 unfolding q3_def q2_def by simp
  show b: "(val div 262144 mod 64 * 64 + val div 4096 mod 64) * 64 + val div 64 mod 64
           = val div 64"
    unfolding c using e1 unfolding q2_def q1_def by simp
  show "((val div 262144 mod 64 * 64 + val div 4096 mod 64) * 64 + val div 64 mod 64) * 64
           + val mod 64 = val"
    unfolding b using e0 unfolding q1_def by simp
qed

lemma bytes3:
  fixes a b c :: nat
  assumes "a < 256" "b < 256" "c < 256"
  shows "(a * 65536 + b * 256 + c) div 65536 mod 256 = a"
    and "(a * 65536 + b * 256 + c) div 256 mod 256 = b"
    and "(a * 65536 + b * 256 + c) mod 256 = c"
proof -
  have "b * 256 + c < 65536" using assms by simp
  then have "(a * 65536 + (b * 256 + c)) div 65536 = a" by simp
  then show "(a * 65536 + b * 256 + c) div 65536 mod 256 = a"
    using assms by (simp add: add.assoc)
  have "(a * 65536 + b * 256 + c) div 256 = a * 256 + b"
    using assms by simp
  then show "(a * 65536 + b * 256 + c) div 256 mod 256 = b" using assms by simp
  have "a * 65536 + b * 256 = (a * 256 + b) * 256" by simp
  then have "(a * 65536 + b * 256 + c) mod 256 = c mod 256"
    by (metis mod_mult_self3)
  then show "(a * 65536 + b * 256 + c) mod 256 = c" using assms by simp
qed

lemma val3_bound:
  fixes a b c :: nat
  assumes "a < 256" "b < 256" "c < 256"
  shows "a * 65536 + b * 256 + c < 16777216"
  using assms by simp

lemma digits64_pow:
  fixes val :: nat
  assumes "val < 16777216"
  shows "val div 2 ^ 18 mod 64 * 64 + val div 2 ^ 12 mod 64 = val div 2 ^ 12"
    and "val div 2 ^ 12 * 64 + val div 2 ^ 6 mod 64 = val div 2 ^ 6"
    and "val div 2 ^ 6 * 64 + val mod 64 = val"
proof -
  have p: "(2::nat) ^ 18 = 262144" "(2::nat) ^ 12 = 4096" "(2::nat) ^ 6 = 64" by simp_all
  note d = digits64[OF assms]
  show "val div 2 ^ 18 mod 64 * 64 + val div 2 ^ 12 mod 64 = val div 2 ^ 12"
    unfolding p by (rule d(3))
  show "val div 2 ^ 12 * 64 + val div 2 ^ 6 mod 64 = val div 2 ^ 6"
    unfolding p using d(2) unfolding d(3) .
  show "val div 2 ^ 6 * 64 + val mod 64 = val"
    unfolding p using d(1) unfolding d(2) .
qed

lemma decode_group3:
  assumes "val < 16777216"
  shows "DecodeString (b64_digit (val div 2 ^ 18) # b64_digit (val div 2 ^ 12)
            # b64_digit (val div 2 ^ 6) # b64_digit val # tail4)
         = map_option (\<lambda>r. byte_of (val div 2 ^ 16) # byte_of (val div 2 ^ 8) # byte_of val # r)
             (DecodeString tail4)"
  by (simp only: DecodeString.simps b64_value_digit prod.case option.case b64_digit_not_pad
        simp_thms if_False Let_def digits64_pow[OF assms])

lemma decode_group2:
  assumes "val < 16777216"
  shows "DecodeString [b64_digit (val div 2 ^ 18), b64_digit (val div 2 ^ 12),
            b64_digit (val div 2 ^ 6), CHR ''='']
         = Some [byte_of (val div 2 ^ 16), byte_of (val div 2 ^ 8)]"
proof -
  have d: "val div 2 ^ 6 div 2 ^ 10 = val div 2 ^ 16" "val div 2 ^ 6 div 2 ^ 2 = val div 2 ^ 8"
    by (simp_all add: div_mult2_eq)
  show ?thesis
    by (simp only: DecodeString.simps b64_value_digit prod.case option.case b64_digit_not_pad
        simp_thms if_False if_True Let_def digits64_pow[OF assms] d)
qed

lemma decode_group1:
  assumes "val < 16777216"
  shows "DecodeString [b64_digit (val div 2 ^ 18), b64_digit (val div 2 ^ 12),
            CHR ''='', CHR ''='']
         = Some [byte_of (val div 2 ^ 16)]"
proof -
  have d: "val div 2 ^ 12 div 2 ^ 4 = val div 2 ^ 16" by (simp add: div_mult2_eq)
  show ?thesis
    by (simp only: DecodeString.simps b64_value_digit prod.case option.case b64_digit_not_pad
        simp_thms if_False if_True Let_def digits64_pow[OF assms] d)
qed

lemma byte_of_mod: "byte_of (n mod 256) = byte_of n"
  by (simp add: byte_of_def)

lemma base64_round_trip: "DecodeString (EncodeToString data) = Some data"
proof (induction data rule: EncodeToString.induct)
  case (1 a b c rest)
  define val where "val = byte_val a * 2 ^ 16 + byte_val b * 2 ^ 8 + byte_val c"
  have v: "val = byte_val a * 65536 + byte_val b * 256 + byte_val c" by (simp add: val_def)
  have bd: "val < 16777216"
    unfolding v by (rule val3_bound) (rule byte_val_bound)+
  note b3 = bytes3[OF byte_val_bound[of a] byte_val_bound[of b] byte_val_bound[of c], folded v]
  have "byte_of (val div 2 ^ 16) = byte_of (val div 65536 mod 256)"
    by (simp add: byte_of_mod)
  then have A: "byte_of (val div 2 ^ 16) = a" by (simp only: b3 byte_of_val)
  have "byte_of (val div 2 ^ 8) = byte_of (val div 256 mod 256)"
    by (simp add: byte_of_mod)
  then have B: "byte_of (val div 2 ^ 8) = b" by (simp only: b3 byte_of_val)
  have "byte_of val = byte_of (val mod 256)" by (simp add: byte_of_mod)
  then have C: "byte_of val = c" by (simp only: b3 byte_of_val)
  have "EncodeToString (a # b # c # rest) =
        b64_digit (val div 2 ^ 18) # b64_digit (val div 2 ^ 12) # b64_digit (val div 2 ^ 6)
          # b64_digit val # EncodeToString rest"
    by (simp add: val_def Let_def)
  then show ?case by (simp only: decode_group3[OF bd] 1 A B C option.map)
next
  case (2 a b)
  define val where "val = byte_val a * 2 ^ 16 + byte_val b * 2 ^ 8"
  have v: "val = byte_val a * 65536 + byte_val b * 256 + 0" by (simp add: val_def)
  have bd: "val < 16777216"
    unfolding v by (rule val3_bound) (simp_all add: byte_val_bound)
  have z: "(0::nat) < 256" by simp
  note b3 = bytes3[OF byte_val_bound[of a] byte_val_bound[of b] z, folded v]
  have "byte_of (val div 2 ^ 16) = byte_of (val div 65536 mod 256)"
    by (simp add: byte_of_mod)
  then have A: "byte_of (val div 2 ^ 16) = a" by (simp only: b3 byte_of_val)
  have "byte_of (val div 2 ^ 8) = byte_of (val div 256 mod 256)"
    by (simp add: byte_of_mod)
  then have B: "byte_of (val div 2 ^ 8) = b" by (simp only: b3 byte_of_val)
  have "EncodeToString [a, b] =
        [b64_digit (val div 2 ^ 18), b64_digit (val div 2 ^ 12), b64_digit (val div 2 ^ 6),
         CHR ''='']"
    by (simp add: val_def Let_def)
  then show ?case by (simp only: decode_group2[OF bd] A B)
next
  case (3 a)
  define val where "val = byte_val a * 2 ^ 16"
  have v: "val = byte_val a * 65536 + 0 * 256 + 0" by (simp add: val_def)
  have bd: "val < 16777216"
    unfolding v by (rule val3_bound) (simp_all add: byte_val_bound)
  have z: "(0::nat) < 256" by simp
  note b3 = bytes3[OF byte_val_bound[of a] z z, folded v]
  have "byte_of (val div 2 ^ 16) = byte_of (val div 65536 mod 256)"
    by (simp add: byte_of_mod)
  then have A: "byte_of (val div 2 ^ 16) = a" by (simp only: b3 byte_of_val)
  have "EncodeToString [a] =
        [b64_digit (val div 2 ^ 18), b64_digit (val div 2 ^ 12), CHR ''='', CHR ''='']"
    by (simp add: val_def Let_def)
  then show ?case by (simp only: decode_group1[OF bd] A)
next
  case 4
  show ?case by simp
qed

lemma encode_alphabet: "set (EncodeToString data) \<subseteq> set encodeStd \<union> {CHR ''=''}"
proof (induction data rule: EncodeToString.induct)
  case (1 a b c rest)
  have "b64_digit v \<in> set encodeStd" for v
    unfolding b64_digit_def by (rule nth_mem) (simp add: length_encodeStd)
  with 1 show ?case by (auto simp: Let_def)
next
  case (2 a b)
  have "b64_digit v \<in> set encodeStd" for v
    unfolding b64_digit_def by (rule nth_mem) (simp add: length_encodeStd)
  then show ?case by (auto simp: Let_def)
next
  case (3 a)
  have "b64_digit v \<in> set encodeStd" for v
    unfolding b64_digit_def by (rule nth_mem) (simp add: length_encodeStd)
  then show ?case by (auto simp: Let_def)
next
  case 4
  show ?case by simp
qed

lemma encode_hello_world: "EncodeToString ''hello world'' = ''aGVsbG8gd29ybGQ=''"
  by (simp add: b64_digit_def encodeStd_def byte_val_def)

text \<open>
  Claim C7. When the file of \<open>sourceFile\<close> can be read and holds \<open>data\<close>,
  \<^verbatim>\<open>EncodeBase64\<close> returns, without error, the standard base64 encoding of \<open>data\<close>:
  decoding it gives \<open>data\<close> back, for every sequence of bytes; it consists of
  characters of the standard alphabet and \<^verbatim>\<open>=\<close> only (so it holds no line break and
  none of the URL-safe \<^verbatim>\<open>-\<close> and \<^verbatim>\<open>_\<close>); an empty file gives the empty string; and the
  bytes of \<^verbatim>\<open>hello world\<close> give \<^verbatim>\<open>aGVsbG8gd29ybGQ=\<close>.
\<close>

theorem encoder_round_trip:
  assumes "os_ReadFile F t (Name sourceFile) = Inr data"
  shows "EncodeBase64 F t sourceFile = (EncodeToString data, None)
       \<and> DecodeString (fst (EncodeBase64 F t sourceFile)) = Some data
       \<and> set (fst (EncodeBase64 F t sourceFile)) \<subseteq> set encodeStd \<union> {CHR ''=''}
       \<and> CHR 0x0A \<notin> set (fst (EncodeBase64 F t sourceFile))
       \<and> CHR ''-'' \<notin> set (fst (EncodeBase64 F t sourceFile))
       \<and> CHR ''_'' \<notin> set (fst (EncodeBase64 F t sourceFile))
       \<and> (data = [] \<longrightarrow> EncodeBase64 F t sourceFile = ([], None))
       \<and> (data = ''hello world'' \<longrightarrow> EncodeBase64 F t sourceFile = (''aGVsbG8gd29ybGQ='', None))"
proof -
  have r: "EncodeBase64 F t sourceFile = (EncodeToString data, None)"
    using assms by (simp add: EncodeBase64_def)
  have nl: "CHR 0x0A \<notin> set encodeStd \<union> {CHR ''=''}"
    and dash: "CHR ''-'' \<notin> set encodeStd \<union> {CHR ''=''}"
    and us: "CHR ''_'' \<notin> set encodeStd \<union> {CHR ''=''}"
    by (simp_all add: encodeStd_def)
  have sub: "set (EncodeToString data) \<subseteq> set encodeStd \<union> {CHR ''=''}"
    by (rule encode_alphabet)
  have "CHR 0x0A \<notin> set (EncodeToString data)" using sub nl by blast
  moreover have "CHR ''-'' \<notin> set (EncodeToString data)" using sub dash by blast
  moreover have "CHR ''_'' \<notin> set (EncodeToString data)" using sub us by blast
  moreover have "data = ''hello world'' \<longrightarrow> EncodeToString data = ''aGVsbG8gd29ybGQ=''"
    using encode_hello_world by blast
  moreover have "data = [] \<longrightarrow> EncodeToString data = []" by simp
  ultimately show ?thesis
    unfolding r fst_conv using sub base64_round_trip[of data] by simp
qed

theorem encoder_round_trip_witness:
  "EncodeBase64 (\<lambda>op. False) (Dir [(''f'', File ''hello world'')]) \<lparr>Name = [''f''], offset = 0\<rparr>
     = (''aGVsbG8gd29ybGQ='', None)
   \<and> DecodeString ''aGVsbG8gd29ybGQ='' = Some ''hello world''
   \<and> DecodeString
        (fst (EncodeBase64 (\<lambda>op. False) (Dir [(''all'', File (map char_of [0..<256]))])
               \<lparr>Name = [''all''], offset = 0\<rparr>))
      = Some (map char_of [0..<256])"
proof -
  let ?F = "\<lambda>op::os_op. False"
  let ?f = "\<lparr>Name = [''f''], offset = 0\<rparr>"
  let ?g = "\<lparr>Name = [''all''], offset = 0\<rparr>"
  have h1: "os_ReadFile ?F (Dir [(''f'', File ''hello world'')]) (Name ?f) = Inr ''hello world''"
    by (simp add: os_ReadFile_def)
  have h2: "os_ReadFile ?F (Dir [(''all'', File (map char_of [0..<256]))]) (Name ?g)
              = Inr (map char_of [0..<256])"
    by (simp add: os_ReadFile_def)
  note t1 = encoder_round_trip[OF h1]
  note t2 = encoder_round_trip[OF h2]
  from t1 have a: "EncodeBase64 ?F (Dir [(''f'', File ''hello world'')]) ?f
      = (''aGVsbG8gd29ybGQ='', None)" by blast
  from t1 have "DecodeString (fst (EncodeBase64 ?F (Dir [(''f'', File ''hello world'')]) ?f))
      = Some ''hello world''" by blast
  then have b: "DecodeString ''aGVsbG8gd29ybGQ='' = Some ''hello world''"
    unfolding a fst_conv .
  from t2 have c: "DecodeString
        (fst (EncodeBase64 ?F (Dir [(''all'', File (map char_of [0..<256]))]) ?g))
      = Some (map char_of [0..<256])" by blast
  from a b c show ?thesis by blast
qed

section \<open>Properties of the file system\<close>

lemma is_prefix_Nil [simp]: "is_prefix [] q"
  by (simp add: is_prefix_def)

lemma is_prefix_Cons [simp]: "is_prefix (c # p) (c' # q) \<longleftrightarrow> c = c' \<and> is_prefix p q"
  by (auto simp: is_prefix_def)

lemma is_prefix_Cons_Nil [simp]: "\<not> is_prefix (c # p) []"
  by (simp add: is_prefix_def)

lemma is_prefix_append [simp]: "is_prefix p (p @ r)"
  by (simp add: is_prefix_def)

lemma is_prefix_iff: "is_prefix p q \<longleftrightarrow> (\<exists>r. q = p @ r)"
  unfolding is_prefix_def by (metis append_eq_conv_conj append_take_drop_id)

lemma lookup_set_node_same: "set_node t p v = Some t' \<Longrightarrow> lookup t' p = Some v"
proof (induction t p v arbitrary: t' rule: set_node.induct)
  case (1 n v) then show ?case by simp
next
  case (2 b c p v) then show ?case by simp
next
  case (3 es c p v)
  show ?case
  proof (cases "p = []")
    case True
    with 3 show ?thesis by (auto simp: AList.update_conv')
  next
    case False
    with "3.prems" obtain child child' where
      m: "map_of es c = Some child" and s: "set_node child p v = Some child'"
      and t': "t' = Dir (AList.update c child' es)"
      by (auto split: option.splits)
    from "3.IH"[OF False m s] t' show ?thesis by (simp add: AList.update_conv')
  qed
qed

lemma lookup_set_node_below:
  "set_node t p v = Some t' \<Longrightarrow> lookup t' (p @ r) = lookup v r"
proof (induction t p v arbitrary: t' rule: set_node.induct)
  case (1 n v) then show ?case by simp
next
  case (2 b c p v) then show ?case by simp
next
  case (3 es c p v)
  show ?case
  proof (cases "p = []")
    case True
    with 3 show ?thesis by (auto simp: AList.update_conv')
  next
    case False
    with "3.prems" obtain child child' where
      m: "map_of es c = Some child" and s: "set_node child p v = Some child'"
      and t': "t' = Dir (AList.update c child' es)"
      by (auto split: option.splits)
    from "3.IH"[OF False m s] t' show ?thesis by (simp add: AList.update_conv')
  qed
qed

lemma lookup_set_node_other:
  "set_node t p v = Some t' \<Longrightarrow> \<not> is_prefix p q \<Longrightarrow> \<not> is_prefix q p
     \<Longrightarrow> lookup t' q = lookup t q"
proof (induction t p v arbitrary: t' q rule: set_node.induct)
  case (1 n v) then show ?case by simp
next
  case (2 b c p v) then show ?case by simp
next
  case (3 es c p v)
  from "3.prems" obtain c' q' where q: "q = c' # q'" by (cases q) auto
  show ?case
  proof (cases "c' = c")
    case False
    with "3.prems"(1) q show ?thesis
      by (auto simp: AList.update_conv' split: if_splits option.splits)
  next
    case True
    show ?thesis
    proof (cases "p = []")
      case True
      with "3.prems" q \<open>c' = c\<close> show ?thesis by simp
    next
      case False
      with "3.prems" obtain child child' where
        m: "map_of es c = Some child" and s: "set_node child p v = Some child'"
        and t': "t' = Dir (AList.update c child' es)"
        by (auto split: option.splits)
      have "\<not> is_prefix p q'" "\<not> is_prefix q' p" using "3.prems" q True by auto
      from "3.IH"[OF False m s this] t' q True m show ?thesis
        by (simp add: AList.update_conv')
    qed
  qed
qed

lemma lookup_set_node_parent:
  "lookup t q = Some (Dir es) \<Longrightarrow>
     \<exists>t'. set_node t (q @ [n]) v = Some t' \<and> lookup t' q = Some (Dir (AList.update n v es))"
proof (induction q arbitrary: t)
  case Nil
  then show ?case by simp
next
  case (Cons c q)
  from Cons.prems obtain cs child where t: "t = Dir cs" and m: "map_of cs c = Some child"
    and l: "lookup child q = Some (Dir es)"
    by (cases t) (auto split: option.splits)
  from Cons.IH[OF l] obtain child' where s: "set_node child (q @ [n]) v = Some child'"
    and l': "lookup child' q = Some (Dir (AList.update n v es))" by blast
  show ?case using t m s l' by (simp add: AList.update_conv')
qed

lemma set_node_exists: "lookup t p = Some x \<Longrightarrow> \<exists>t'. set_node t p v = Some t'"
proof (induction p arbitrary: t)
  case Nil then show ?case by simp
next
  case (Cons c p)
  from Cons.prems obtain cs child where t: "t = Dir cs" and m: "map_of cs c = Some child"
    and l: "lookup child p = Some x"
    by (cases t) (auto split: option.splits)
  from Cons.IH[OF l] obtain child' where "set_node child p v = Some child'" by blast
  with t m show ?case by simp
qed

lemma lookup_del_node_below: "p \<noteq> [] \<Longrightarrow> lookup (del_node t p) (p @ r) = None"
proof (induction t p arbitrary: r rule: del_node.induct)
  case (1 n) then show ?case by simp
next
  case (2 b c p) then show ?case by simp
next
  case (3 es c p)
  show ?case
  proof (cases "p = []")
    case True
    then show ?thesis by (simp add: AList.delete_conv')
  next
    case False
    show ?thesis
    proof (cases "map_of es c")
      case None
      with False show ?thesis by simp
    next
      case (Some child)
      with False "3.IH"[OF False Some False] show ?thesis
        by (simp add: AList.update_conv')
    qed
  qed
qed

lemma lookup_del_node_other:
  "\<not> is_prefix p q \<Longrightarrow> \<not> is_prefix q p \<Longrightarrow> lookup (del_node t p) q = lookup t q"
proof (induction t p arbitrary: q rule: del_node.induct)
  case (1 n) then show ?case by simp
next
  case (2 b c p) then show ?case by simp
next
  case (3 es c p)
  from "3.prems" obtain c' q' where q: "q = c' # q'" by (cases q) auto
  show ?case
  proof (cases "c' = c")
    case False
    with q show ?thesis
      by (auto simp: AList.update_conv' AList.delete_conv' split: option.splits)
  next
    case True
    show ?thesis
    proof (cases "p = []")
      case True
      with "3.prems" q \<open>c' = c\<close> show ?thesis by simp
    next
      case False
      have np: "\<not> is_prefix p q'" "\<not> is_prefix q' p" using "3.prems" q True by auto
      show ?thesis
      proof (cases "map_of es c")
        case None
        with False show ?thesis by simp
      next
        case (Some child)
        with False "3.IH"[OF False Some np] q True show ?thesis
          by (simp add: AList.update_conv')
      qed
    qed
  qed
qed

section \<open>Properties of the fetcher\<close>

lemma write_at_fresh: "write_at [] 0 data = data"
  by (simp add: write_at_def)

lemma write_at_Nil: "write_at old off [] = old"
  by (simp add: write_at_def)

lemma file_Write_Nil: "file_Write F d f [] = (None, d)"
  by (simp add: file_Write_def)

lemma file_Write_error_iff:
  "fst (file_Write F d f data) \<noteq> None \<longleftrightarrow> data \<noteq> [] \<and> F (OpWrite (Name f))"
  by (auto simp: file_Write_def split: option.splits node.splits)

lemma file_Write_gets_disk:
  "file_Write F d f data = (err, d') \<Longrightarrow> err \<noteq> None \<Longrightarrow> d' = d"
  by (auto simp: file_Write_def split: if_splits option.splits node.splits)

lemma file_Write_ok:
  assumes "file_Write F d f data = (None, d')" and "lookup d (Name f) = Some (File old)"
  shows "lookup d' (Name f) = Some (File (write_at old (offset f) data))"
proof (cases "data = []")
  case True
  with assms show ?thesis by (simp add: file_Write_def write_at_Nil)
next
  case False
  from set_node_exists[OF assms(2)] obtain t' where
    s: "set_node d (Name f) (File (write_at old (offset f) data)) = Some t'" by blast
  with assms False have "d' = t'" by (simp add: file_Write_def split: if_splits)
  with lookup_set_node_same[OF s] show ?thesis by simp
qed

lemma DownloadFile_gets: "gets (snd (DownloadFile e f url w)) = gets w @ [url]"
  by (auto simp: DownloadFile_def http_Get_def io_Copy_def
           split: http_result.splits body.splits prod.splits option.splits)

lemma DownloadFile_others:
  "stages (snd (DownloadFile e f url w)) = stages w"
  "stdout (snd (DownloadFile e f url w)) = stdout w"
  "stderr (snd (DownloadFile e f url w)) = stderr w"
  by (auto simp: DownloadFile_def http_Get_def io_Copy_def
           split: http_result.splits body.splits prod.splits option.splits)

lemma DownloadFile_GetFails:
  "net e (length (gets w)) url = GetFails \<Longrightarrow>
     DownloadFile e f url w = (Some ErrTransport, w\<lparr>gets := gets w @ [url]\<rparr>)"
  by (simp add: DownloadFile_def http_Get_def)

lemma DownloadFile_status:
  "net e (length (gets w)) url = Response code b \<Longrightarrow> code \<noteq> StatusOK \<Longrightarrow>
     DownloadFile e f url w = (Some (ErrStatus code), w\<lparr>gets := gets w @ [url]\<rparr>)"
  by (simp add: DownloadFile_def http_Get_def)

lemma DownloadFile_BodyFails:
  "net e (length (gets w)) url = Response StatusOK (BodyFails bs) \<Longrightarrow>
     fst (DownloadFile e f url w) \<noteq> None"
  by (auto simp: DownloadFile_def http_Get_def io_Copy_def split: prod.splits option.splits)

lemma DownloadFile_Body:
  "net e (length (gets w)) url = Response StatusOK (Body bs) \<Longrightarrow>
     DownloadFile e f url w =
       (fst (file_Write (faults e) (disk w) f bs),
        w\<lparr>gets := gets w @ [url], disk := snd (file_Write (faults e) (disk w) f bs)\<rparr>)"
  by (auto simp: DownloadFile_def http_Get_def io_Copy_def file_Write_Nil split: prod.splits)

lemma DownloadFile_success:
  assumes "fst (DownloadFile e f url w) = None"
  shows "\<exists>bs. net e (length (gets w)) url = Response StatusOK (Body bs)
           \<and> (\<forall>old. lookup (disk w) (Name f) = Some (File old) \<longrightarrow>
                 lookup (disk (snd (DownloadFile e f url w))) (Name f)
                   = Some (File (write_at old (offset f) bs)))"
proof (cases "net e (length (gets w)) url")
  case GetFails
  with assms show ?thesis by (simp add: DownloadFile_GetFails)
next
  case (Response code b)
  show ?thesis
  proof (cases "code = StatusOK")
    case False
    with assms Response show ?thesis by (simp add: DownloadFile_status)
  next
    case True
    show ?thesis
    proof (cases b)
      case (BodyFails bs)
      with assms Response True DownloadFile_BodyFails[of e w url bs f] show ?thesis by simp
    next
      case (Body bs)
      with Response True have n: "net e (length (gets w)) url = Response StatusOK (Body bs)"
        by simp
      obtain d' where fw: "file_Write (faults e) (disk w) f bs = (None, d')"
        using assms DownloadFile_Body[OF n, of f]
        by (cases "file_Write (faults e) (disk w) f bs") auto
      have "lookup (disk (snd (DownloadFile e f url w))) (Name f)
              = Some (File (write_at old (offset f) bs))"
        if "lookup (disk w) (Name f) = Some (File old)" for old
        using file_Write_ok[OF fw that] DownloadFile_Body[OF n, of f] fw by simp
      with n show ?thesis by blast
    qed
  qed
qed

lemma DownloadFile_empty_body:
  "net e (length (gets w)) url = Response StatusOK (Body []) \<Longrightarrow>
     DownloadFile e f url w = (None, w\<lparr>gets := gets w @ [url]\<rparr>)"
  by (simp add: DownloadFile_def http_Get_def io_Copy_def)


lemma log_fields:
  "stages (log_Printf msg w) = stages w" "stdout (log_Printf msg w) = stdout w"
  "gets (log_Printf msg w) = gets w" "disk (log_Printf msg w) = disk w"
  "log_Fatalf msg w = (Exited 1, log_Printf msg w)"
  by (simp_all add: log_Printf_def log_Fatalf_def)

text \<open>One pass of the loop, by cases.\<close>

lemma metadata_name_fields:
  "stages (snd (metadata_name e mirror metadata w)) = stages w"
  "stdout (snd (metadata_name e mirror metadata w)) = stdout w"
  "disk (snd (metadata_name e mirror metadata w)) = disk w"
  by (simp_all add: metadata_name_def resolve_def split: prod.splits)

lemma fetch_loop_step:
  fixes e mirror tmp metadata rest r w
  defines "nw \<equiv> metadata_name e mirror metadata w"
  shows "fetch_loop e mirror tmp (metadata # rest) r w =
     (case os_Create (faults e) (disk (snd nw)) (Join tmp (fst nw)) of
        Inl err \<Rightarrow> Inl (Panicked, snd nw)
      | Inr (metadataFile, d) \<Rightarrow>
          (case fst (DownloadFile e metadataFile (mirror @ ''/'' @ fst nw) ((snd nw)\<lparr>disk := d\<rparr>)) of
             Some err \<Rightarrow>
               Inl (log_Fatalf ''Error: could not download''
                      (snd (DownloadFile e metadataFile (mirror @ ''/'' @ fst nw)
                             ((snd nw)\<lparr>disk := d\<rparr>))))
           | None \<Rightarrow>
               fetch_loop e mirror tmp rest
                 (if metadata = ''root.json'' then Some metadataFile else r)
                 (snd (DownloadFile e metadataFile (mirror @ ''/'' @ fst nw)
                         ((snd nw)\<lparr>disk := d\<rparr>)))))"
  unfolding nw_def
  by (simp split: prod.splits sum.splits option.splits)

lemma fetch_loop_keeps:
  "(fetch_loop e mirror tmp roles r w = Inl (out, w') \<longrightarrow>
       exit_status out \<noteq> 0 \<and> stages w' = stages w \<and> stdout w' = stdout w)
   \<and> (fetch_loop e mirror tmp roles r w = Inr (r', w') \<longrightarrow>
       stages w' = stages w \<and> stdout w' = stdout w)"
proof (induction roles arbitrary: r w)
  case Nil
  then show ?case by simp
next
  case (Cons metadata rest)
  define nw where "nw = metadata_name e mirror metadata w"
  have k: "stages (snd nw) = stages w" "stdout (snd nw) = stdout w"
    by (simp_all add: nw_def metadata_name_fields)
  note step = fetch_loop_step[of e mirror tmp metadata rest r w, folded nw_def]
  show ?case
  proof (cases "os_Create (faults e) (disk (snd nw)) (Join tmp (fst nw))")
    case (Inl err)
    with step k show ?thesis by auto
  next
    case (Inr fd)
    obtain f d where fd: "fd = (f, d)" by (cases fd)
    define dl where "dl = DownloadFile e f (mirror @ ''/'' @ fst nw) ((snd nw)\<lparr>disk := d\<rparr>)"
    have kd: "stages (snd dl) = stages w" "stdout (snd dl) = stdout w"
      by (simp_all add: dl_def DownloadFile_others k)
    show ?thesis
    proof (cases "fst dl")
      case (Some err)
      with step Inr fd kd show ?thesis by (auto simp: dl_def log_fields)
    next
      case None
      with step Inr fd have
        "fetch_loop e mirror tmp (metadata # rest) r w =
           fetch_loop e mirror tmp rest (if metadata = ''root.json'' then Some f else r) (snd dl)"
        by (simp add: dl_def)
      with Cons.IH[of "if metadata = ''root.json'' then Some f else r" "snd dl"] kd
      show ?thesis by simp
    qed
  qed
qed

lemma run_start_keeps:
  "(run_start e mirror w = Inl (out, w') \<longrightarrow>
       out = Exited 1 \<and> stages w' = stages w \<and> stdout w' = stdout w)
   \<and> (run_start e mirror w = Inr (tmp, w') \<longrightarrow>
       stages w' = stages w \<and> stdout w' = stdout w)"
  by (auto simp: run_start_def log_fields resolve_def split: sum.splits prod.splits if_splits)

lemma deferred_fields:
  "fst (deferred e tmp r) = fst r"
  "stages (snd (deferred e tmp r)) = stages (snd r)"
  "stdout (snd (deferred e tmp r)) = stdout (snd r)"
  "gets (snd (deferred e tmp r)) = gets (snd r)"
  by (auto simp: deferred_def split: prod.splits outcome.splits)

lemma main_fetch_fails:
  assumes "run_start e mirror w = Inr (tmp, w1)" and "run_fetch e mirror tmp w1 = Inl r"
  shows "main e mirror False w = deferred e tmp r"
  using assms by (simp add: main_def run_body_def run_restructure_def run_trust_def)

section \<open>The pipeline on the concrete environment\<close>

lemma example_candidates:
  "candidates ''root.json'' example_listing = [''1.root.json'']"
  "candidates ''snapshot.json'' example_listing = [''1.snapshot.json'']"
  "candidates ''targets.json'' example_listing = [''1.targets.json'']"
  by (simp_all add: example_listing_def candidates_def match_here_def is_digit_def)

lemma example_latest:
  assumes "get ''https://m'' = Response 200 (Body example_listing)"
  shows "GetLatestMetadataName get ''https://m'' ''root.json'' = (''1.root.json'', None)"
    and "GetLatestMetadataName get ''https://m'' ''snapshot.json'' = (''1.snapshot.json'', None)"
    and "GetLatestMetadataName get ''https://m'' ''targets.json'' = (''1.targets.json'', None)"
  using assms by (simp_all add: GetLatestMetadataName_def StatusOK_def example_candidates)

lemma example_start:
  assumes "\<And>n. answers n ''https://m'' = Response 200 (Body example_listing)"
  shows "run_start (example_env answers) ''https://m'' example_world =
     Inr ([''tmp'', ''tuf-repository-*''],
          \<lparr>disk = Dir [(''home'', Dir []), (''tmp'', Dir [(''tuf-repository-*'', Dir [])])],
           gets = [''https://m''], stdout = [],
           stderr = [''mirror https://m, root https://m/1.root.json''], stages = []\<rparr>)"
  by (simp add: run_start_def example_env_def example_world_def os_MkdirTemp_def Join_def
        resolve_def example_latest[of "answers 0", OF assms] log_Printf_def)

lemma example_fetch_404:
  "run_fetch (example_env mirror_404) ''https://m'' [''tmp'', ''tuf-repository-*'']
     \<lparr>disk = Dir [(''home'', Dir []), (''tmp'', Dir [(''tuf-repository-*'', Dir [])])],
      gets = [''https://m''], stdout = [],
      stderr = [''mirror https://m, root https://m/1.root.json''], stages = []\<rparr>
   = Inl (Exited 1,
      \<lparr>disk = Dir [(''home'', Dir []),
                   (''tmp'', Dir [(''tuf-repository-*'', Dir [(''1.root.json'', File [])])])],
       gets = [''https://m'', ''https://m'', ''https://m/1.root.json''], stdout = [],
       stderr = [''mirror https://m, root https://m/1.root.json'',
                 ''Error: could not download''],
       stages = []\<rparr>)"
proof -
  have m: "mirror_404 n ''https://m'' = Response 200 (Body example_listing)" for n
    by (simp add: mirror_404_def)
  have d: "mirror_404 n ''https://m/1.root.json'' = Response 404 (Body ''not found'')" for n
    by (simp add: mirror_404_def)
  show ?thesis
    by (simp add: run_fetch_def metadatas_def metadata_name_def resolve_def
          example_latest[of "mirror_404 n" for n, OF m] example_env_def os_Create_def Join_def
          DownloadFile_def http_Get_def d StatusOK_def log_Fatalf_def log_Printf_def)
qed

lemma good_mirror_answers:
  "good_mirror n ''https://m'' = Response 200 (Body example_listing)"
  "good_mirror n ''https://m/1.root.json'' = Response 200 (Body ''{}'')"
  "good_mirror n ''https://m/1.snapshot.json'' = Response 200 (Body ''{}'')"
  "good_mirror n ''https://m/1.targets.json'' = Response 200 (Body ''{}'')"
  "good_mirror n ''https://m/timestamp.json'' = Response 200 (Body ''{}'')"
  by (simp_all add: good_mirror_def)

lemma example_fetch_good:
  "run_fetch (example_env good_mirror) ''https://m'' [''tmp'', ''tuf-repository-*'']
     \<lparr>disk = Dir [(''home'', Dir []), (''tmp'', Dir [(''tuf-repository-*'', Dir [])])],
      gets = [''https://m''], stdout = [],
      stderr = [''mirror https://m, root https://m/1.root.json''], stages = []\<rparr>
   = Inr (Some \<lparr>Name = [''tmp'', ''tuf-repository-*'', ''1.root.json''], offset = 0\<rparr>,
      \<lparr>disk = Dir [(''home'', Dir []),
                   (''tmp'', Dir [(''tuf-repository-*'',
                      Dir [(''1.root.json'', File ''{}''), (''1.snapshot.json'', File ''{}''),
                           (''1.targets.json'', File ''{}''), (''timestamp.json'', File ''{}'')])])],
       gets = [''https://m'', ''https://m'', ''https://m/1.root.json'',
               ''https://m'', ''https://m/1.snapshot.json'',
               ''https://m'', ''https://m/1.targets.json'', ''https://m/timestamp.json''],
       stdout = [],
       stderr = [''mirror https://m, root https://m/1.root.json''],
       stages = []\<rparr>)"
  by (simp add: run_fetch_def metadatas_def metadata_name_def resolve_def
        example_latest[of "good_mirror n" for n, OF good_mirror_answers(1)]
        example_env_def os_Create_def Join_def
        DownloadFile_def http_Get_def good_mirror_answers StatusOK_def io_Copy_def
        file_Write_def write_at_def)


lemma example_restructure:
  "restructure (example_env good_mirror) [''tmp'', ''tuf-repository-*'']
     \<lparr>disk = Dir [(''home'', Dir [(''.sigstore'', Dir [(''root'',
                      Dir [(''targets'', Dir [(''trusted_root.json'', File ''{}'')])])])]),
                   (''tmp'', Dir [(''tuf-repository-*'',
                      Dir [(''1.root.json'', File ''{}''), (''1.snapshot.json'', File ''{}''),
                           (''1.targets.json'', File ''{}''), (''timestamp.json'', File ''{}'')])])],
       gets = [''https://m'', ''https://m'', ''https://m/1.root.json'',
               ''https://m'', ''https://m/1.snapshot.json'',
               ''https://m'', ''https://m/1.targets.json'', ''https://m/timestamp.json''],
       stdout = [],
       stderr = [''mirror https://m, root https://m/1.root.json'', ''Root status: ok''],
       stages = [TrustInit, RootStatus]\<rparr>
   = Inr
     \<lparr>disk = Dir [(''home'', Dir [(''.sigstore'', Dir [(''root'', Dir [])])]),
                   (''tmp'', Dir [(''tuf-repository-*'',
                      Dir [(''1.root.json'', File ''{}''), (''1.snapshot.json'', File ''{}''),
                           (''1.targets.json'', File ''{}''), (''timestamp.json'', File ''{}''),
                           (''targets'', Dir [(''trusted_root.json'', File ''{}'')])])])],
       gets = [''https://m'', ''https://m'', ''https://m/1.root.json'',
               ''https://m'', ''https://m/1.snapshot.json'',
               ''https://m'', ''https://m/1.targets.json'', ''https://m/timestamp.json''],
       stdout = [],
       stderr = [''mirror https://m, root https://m/1.root.json'', ''Root status: ok''],
       stages = [TrustInit, RootStatus, Restructure]\<rparr>"
  by (simp add: restructure_def os_Rename_def originalTargetsDir_def Join_def example_env_def
        is_prefix_def enter_def)




section \<open>Properties of the manifest emitter\<close>




















section \<open>What the stages leave untouched\<close>


lemma log_stderr: "stderr (log_Printf msg w) = stderr w @ [msg]"
  by (simp add: log_Printf_def)










section \<open>The trust store during a run\<close>



lemma lookup_append:
  "lookup t (p @ q) = (case lookup t p of None \<Rightarrow> None | Some n \<Rightarrow> lookup n q)"
proof (induction p arbitrary: t)
  case Nil
  then show ?case by simp
next
  case (Cons c p)
  then show ?case by (cases t) (auto split: option.splits)
qed






text \<open>Only the trust stage looks at the trust library.\<close>

lemma other_library_simple:
  "tufDir (e\<lparr>tuf_Initialize := T\<rparr>) = tufDir e"
  "resolve (e\<lparr>tuf_Initialize := T\<rparr>) = resolve e"
  "metadata_name (e\<lparr>tuf_Initialize := T\<rparr>) = metadata_name e"
  "DownloadFile (e\<lparr>tuf_Initialize := T\<rparr>) = DownloadFile e"
  "run_start (e\<lparr>tuf_Initialize := T\<rparr>) = run_start e"
  "cleanupLocalTUFRepository (e\<lparr>tuf_Initialize := T\<rparr>) = cleanupLocalTUFRepository e"
  "restructure (e\<lparr>tuf_Initialize := T\<rparr>) = restructure e"
  "CompressDirectory (e\<lparr>tuf_Initialize := T\<rparr>) = CompressDirectory e"
  "deferred (e\<lparr>tuf_Initialize := T\<rparr>) = deferred e"
  by (simp_all add: fun_eq_iff tufDir_def resolve_def metadata_name_def DownloadFile_def
        http_Get_def io_Copy_def run_start_def cleanupLocalTUFRepository_def restructure_def
        originalTargetsDir_def CompressDirectory_def deferred_def
      cong: sum.case_cong option.case_cong prod.case_cong outcome.case_cong
        http_result.case_cong body.case_cong if_cong)


lemma other_library_fetch:
  "fetch_loop (e\<lparr>tuf_Initialize := T\<rparr>) mirror tmp roles r w = fetch_loop e mirror tmp roles r w"
  by (induction roles arbitrary: r w)
     (simp_all add: other_library_simple
      cong: sum.case_cong option.case_cong prod.case_cong outcome.case_cong
        http_result.case_cong body.case_cong if_cong)







section \<open>Resolution failures\<close>




lemma os_Create_dir:
  "lookup d p = Some (Dir es) \<Longrightarrow> \<exists>err. os_Create F d p = Inl err"
  by (simp add: os_Create_def)





lemma run_start_dir:
  "run_start e mirror w = Inr (tmp, w1) \<Longrightarrow> lookup (disk w1) tmp = Some (Dir [])"
  by (auto simp: run_start_def os_MkdirTemp_def resolve_def log_fields
      dest: lookup_set_node_same
      split: sum.splits prod.splits if_splits option.splits)





section \<open>The move of the verified targets\<close>

lemma lookup_above_dir:
  assumes "is_prefix q p" and "q \<noteq> p" and "lookup t p = Some x"
  shows "\<exists>es. lookup t q = Some (Dir es)"
proof -
  from assms(1) obtain r where p: "p = q @ r" by (auto simp: is_prefix_iff)
  with assms(2) obtain c r' where r: "r = c # r'" by (cases r) auto
  from assms(3) obtain n where n: "lookup t q = Some n" and l: "lookup n (c # r') = Some x"
    unfolding p r lookup_append by (auto split: option.splits)
  from l obtain es where "n = Dir es" by (cases n) auto
  with n show ?thesis by simp
qed

lemma os_Rename_ok:
  assumes "os_Rename F fs oldp newp = (None, fs')"
  shows "\<exists>src. lookup fs oldp = Some src \<and> set_node (del_node fs oldp) newp src = Some fs'
           \<and> oldp \<noteq> [] \<and> \<not> is_prefix oldp newp \<and> \<not> is_prefix newp oldp
           \<and> (lookup fs newp \<noteq> None \<longrightarrow> (\<exists>b. src = File b))"
proof -
  from assms obtain src where s: "lookup fs oldp = Some src"
    by (auto simp: os_Rename_def split: if_splits option.splits)
  from assms s have nd: "\<forall>es. lookup fs newp \<noteq> Some (Dir es)"
    by (auto simp: os_Rename_def split: if_splits option.splits node.splits)
  from assms s nd have k: "oldp \<noteq> []" "\<not> is_prefix oldp newp"
    "set_node (del_node fs oldp) newp src = Some fs'"
    "lookup fs newp \<noteq> None \<longrightarrow> (\<exists>b. src = File b)"
    by (auto simp: os_Rename_def split: if_splits option.splits node.splits)
  have "\<not> is_prefix newp oldp"
  proof
    assume p: "is_prefix newp oldp"
    from k(2) have "newp \<noteq> oldp" by (auto simp: is_prefix_def)
    from lookup_above_dir[OF p this s] nd show False by blast
  qed
  with s k show ?thesis by blast
qed

lemma os_Rename_error_disk:
  "os_Rename F fs oldp newp = (Some err, fs') \<Longrightarrow> fs' = fs"
  by (auto simp: os_Rename_def split: if_splits option.splits node.splits)

lemma os_Rename_no_source:
  "lookup fs oldp = None \<Longrightarrow> fst (os_Rename F fs oldp newp) \<noteq> None"
  by (simp add: os_Rename_def)

lemma os_Rename_destination:
  "lookup fs oldp = Some (Dir es) \<Longrightarrow> lookup fs newp \<noteq> None
     \<Longrightarrow> fst (os_Rename F fs oldp newp) \<noteq> None"
  by (auto simp: os_Rename_def split: option.splits node.splits)

lemma os_Rename_moved:
  assumes "os_Rename F fs oldp newp = (None, fs')"
  shows "lookup fs' oldp = None" and "lookup fs' newp = lookup fs oldp"
proof -
  from os_Rename_ok[OF assms] obtain src where s: "lookup fs oldp = Some src"
    and n: "set_node (del_node fs oldp) newp src = Some fs'"
    and k: "oldp \<noteq> []" "\<not> is_prefix oldp newp" "\<not> is_prefix newp oldp" by blast
  from lookup_set_node_other[OF n k(3) k(2)] lookup_del_node_below[OF k(1), of fs "[]"]
  show "lookup fs' oldp = None" by simp
  from lookup_set_node_same[OF n] s show "lookup fs' newp = lookup fs oldp" by simp
qed

lemma os_Rename_into:
  assumes "os_Rename F fs oldp (q @ [n]) = (None, fs')" and "lookup fs q = Some (Dir es)"
    and "\<not> is_prefix oldp q" and "\<not> is_prefix q oldp"
  shows "\<exists>src. lookup fs oldp = Some src \<and> lookup fs' q = Some (Dir (AList.update n src es))"
proof -
  from os_Rename_ok[OF assms(1)] obtain src where s: "lookup fs oldp = Some src"
    and sn: "set_node (del_node fs oldp) (q @ [n]) src = Some fs'" by blast
  have "lookup (del_node fs oldp) q = Some (Dir es)"
    using lookup_del_node_other[OF assms(3,4)] assms(2) by simp
  from lookup_set_node_parent[OF this, of n src] sn s show ?thesis by auto
qed

lemma update_names: "fst ` set (AList.update k v es) = insert k (fst ` set es)"
  by (induction es) auto

lemma file_Write_names:
  assumes "lookup d q = Some (Dir es)" and "Name f = q @ [n]" and "n \<in> fst ` set es"
  shows "\<exists>es'. lookup (snd (file_Write F d f data)) q = Some (Dir es')
           \<and> fst ` set es' = fst ` set es"
proof (cases "\<exists>v. set_node d (Name f) v = Some (snd (file_Write F d f data))")
  case True
  then obtain v where v: "set_node d (q @ [n]) v = Some (snd (file_Write F d f data))"
    using assms(2) by auto
  from lookup_set_node_parent[OF assms(1), of n v] v
  have "lookup (snd (file_Write F d f data)) q = Some (Dir (AList.update n v es))" by auto
  with assms(3) show ?thesis by (auto simp: update_names)
next
  case False
  then have "snd (file_Write F d f data) = d"
    by (auto simp: file_Write_def split: if_splits option.splits node.splits)
  with assms(1) show ?thesis by simp
qed

lemma DownloadFile_names:
  assumes "lookup (disk w) q = Some (Dir es)" and "Name f = q @ [n]" and "n \<in> fst ` set es"
  shows "\<exists>es'. lookup (disk (snd (DownloadFile e f url w))) q = Some (Dir es')
           \<and> fst ` set es' = fst ` set es"
proof -
  have k: "\<exists>es'. lookup d2 q = Some (Dir es') \<and> fst ` set es' = fst ` set es"
    if "file_Write (faults e) (disk w) f bs = (er, d2)" for bs er d2
    using file_Write_names[OF assms, of "faults e" bs] that by simp
  show ?thesis
    using assms(1)
    by (auto simp: DownloadFile_def http_Get_def io_Copy_def dest: k
        split: http_result.splits body.splits prod.splits option.splits)
qed

lemma GetLatest_name_matches:
  assumes "fst (GetLatestMetadataName get mirror pat) \<noteq> []"
  shows "re_matches pat (fst (GetLatestMetadataName get mirror pat))"
proof -
  from assms obtain code listing where g: "get mirror = Response code (Body listing)"
    and c: "code = StatusOK" and ne: "candidates pat listing \<noteq> []"
    by (auto simp: GetLatestMetadataName_def Let_def
        split: http_result.splits body.splits if_splits)
  let ?s = "sort (candidates pat listing)"
  have "Max (set (candidates pat listing)) \<in> set (candidates pat listing)"
    using ne by (intro Max_in) simp_all
  then have "?s ! (length ?s - 1) \<in> set (candidates pat listing)"
    by (simp only: sort_last_Max[OF ne])
  then have "re_matches pat (?s ! (length ?s - 1))" by (rule candidates_match)
  with g c ne show ?thesis by (simp add: GetLatestMetadataName_def Let_def)
qed

lemma metadata_name_role:
  "fst (metadata_name e mirror role w) \<noteq> [] \<Longrightarrow> role_name role (fst (metadata_name e mirror role w))"
  using GetLatest_name_matches[of "net e (length (gets w))" mirror role]
  by (auto simp: metadata_name_def role_name_def resolve_def split: prod.splits)

lemma fetch_loop_names:
  "lookup (disk w) tmp = Some (Dir es) \<Longrightarrow> fetch_loop e mirror tmp roles r w = Inr (r', w')
     \<Longrightarrow> \<exists>es' names. lookup (disk w') tmp = Some (Dir es') \<and> list_all2 role_name roles names
            \<and> fst ` set es' = fst ` set es \<union> set names"
proof (induction roles arbitrary: r w es)
  case Nil
  then show ?case by simp
next
  case (Cons metadata rest)
  define nw where "nw = metadata_name e mirror metadata w"
  have dk: "disk (snd nw) = disk w" by (simp add: nw_def metadata_name_fields)
  note step = fetch_loop_step[of e mirror tmp metadata rest r w, folded nw_def]
  show ?case
  proof (cases "os_Create (faults e) (disk (snd nw)) (Join tmp (fst nw))")
    case (Inl err)
    with step Cons.prems show ?thesis by simp
  next
    case (Inr fd)
    obtain f d where fd: "fd = (f, d)" by (cases fd)
    have ne: "fst nw \<noteq> []"
    proof
      assume "fst nw = []"
      with Inr os_Create_dir[of "disk w" tmp es "faults e"] Cons.prems(1) dk
      show False by (simp add: Join_def)
    qed
    then have rn: "role_name metadata (fst nw)" unfolding nw_def by (rule metadata_name_role)
    from Inr fd ne have nf: "Name f = tmp @ [fst nw]"
      and sd: "set_node (disk w) (tmp @ [fst nw]) (File []) = Some d"
      by (auto simp: os_Create_def Join_def dk split: if_splits option.splits node.splits)
    from lookup_set_node_parent[OF Cons.prems(1), of "fst nw" "File []"] sd
    have e1: "lookup d tmp = Some (Dir (AList.update (fst nw) (File []) es))" by auto
    define dl where "dl = DownloadFile e f (mirror @ ''/'' @ fst nw) ((snd nw)\<lparr>disk := d\<rparr>)"
    have "\<exists>es'. lookup (disk (snd dl)) tmp = Some (Dir es')
            \<and> fst ` set es' = fst ` set (AList.update (fst nw) (File []) es)"
      unfolding dl_def
      by (rule DownloadFile_names[OF _ nf]) (simp_all add: e1 update_names)
    then obtain es2 where e2: "lookup (disk (snd dl)) tmp = Some (Dir es2)"
      and n2: "fst ` set es2 = insert (fst nw) (fst ` set es)"
      by (auto simp: update_names)
    show ?thesis
    proof (cases "fst dl")
      case (Some err)
      with step Inr fd Cons.prems(2) show ?thesis by (simp add: dl_def log_fields)
    next
      case None
      with step Inr fd Cons.prems(2) have
        "fetch_loop e mirror tmp rest (if metadata = ''root.json'' then Some f else r) (snd dl)
           = Inr (r', w')"
        by (simp add: dl_def)
      from Cons.IH[OF e2 this] obtain es' names where
        a: "lookup (disk w') tmp = Some (Dir es')" and b: "list_all2 role_name rest names"
        and c: "fst ` set es' = fst ` set es2 \<union> set names" by blast
      from b rn have "list_all2 role_name (metadata # rest) (fst nw # names)" by simp
      moreover from c n2 have "fst ` set es' = fst ` set es \<union> set (fst nw # names)" by auto
      ultimately show ?thesis using a by blast
    qed
  qed
qed

lemma run_fetch_names:
  assumes "run_start e mirror w = Inr (tmp, w1)" and "run_fetch e mirror tmp w1 = Inr (r, w2)"
  shows "\<exists>es n1 n2 n3. lookup (disk w2) tmp = Some (Dir es)
           \<and> fst ` set es = {n1, n2, n3, ''timestamp.json''}
           \<and> re_matches ''root.json'' n1 \<and> re_matches ''snapshot.json'' n2
           \<and> re_matches ''targets.json'' n3"
proof -
  from fetch_loop_names[OF run_start_dir[OF assms(1)] assms(2)[unfolded run_fetch_def]]
  obtain es names where a: "lookup (disk w2) tmp = Some (Dir es)"
    and b: "list_all2 role_name metadatas names" and c: "fst ` set es = set names" by auto
  from b obtain n1 n2 n3 n4 where n: "names = [n1, n2, n3, n4]"
    and r: "role_name ''root.json'' n1" "role_name ''snapshot.json'' n2"
      "role_name ''targets.json'' n3" "role_name ''timestamp.json'' n4"
    by (auto simp: metadatas_def list_all2_Cons1)
  from r have "re_matches ''root.json'' n1" "re_matches ''snapshot.json'' n2"
    "re_matches ''targets.json'' n3" "n4 = ''timestamp.json''"
    by (simp_all add: role_name_def)
  with a c n show ?thesis by auto
qed

text \<open>
  Claim C5, as stated, at two concrete answers. The request succeeds with status 200,
  the body breaks off after two bytes, and \<^verbatim>\<open>DownloadFile\<close> returns an error (having
  written the two bytes). The request succeeds with the success status 204 (No
  Content), and \<^verbatim>\<open>DownloadFile\<close> returns an error: the test is for 200 alone.
\<close>

theorem fetcher_error_cases_counterexample:
  "net (example_env (\<lambda>n url. Response 200 (BodyFails ''ab''))) 0 ''https://m/f''
      = Response StatusOK (BodyFails ''ab'')
   \<and> DownloadFile (example_env (\<lambda>n url. Response 200 (BodyFails ''ab'')))
        \<lparr>Name = [''tmp'', ''f''], offset = 0\<rparr> ''https://m/f''
        (example_world\<lparr>disk := Dir [(''tmp'', Dir [(''f'', File [])])]\<rparr>)
      = (Some ErrBodyRead,
         example_world\<lparr>disk := Dir [(''tmp'', Dir [(''f'', File ''ab'')])],
                        gets := [''https://m/f'']\<rparr>)
   \<and> DownloadFile (example_env (\<lambda>n url. Response 204 (Body [])))
        \<lparr>Name = [''tmp'', ''f''], offset = 0\<rparr> ''https://m/f''
        (example_world\<lparr>disk := Dir [(''tmp'', Dir [(''f'', File [])])]\<rparr>)
      = (Some (ErrStatus 204),
         example_world\<lparr>disk := Dir [(''tmp'', Dir [(''f'', File [])])],
                        gets := [''https://m/f'']\<rparr>)"
  by (simp add: example_env_def example_world_def DownloadFile_def http_Get_def StatusOK_def
        io_Copy_def file_Write_def write_at_def)

text \<open>
  Claim C5, amended. \<^verbatim>\<open>DownloadFile\<close> issues exactly one GET, for the given URL, and
  never a second one. It returns an error exactly when the request fails, or the status
  is not 200, or copying the body to the file fails (the body breaks off, or a body
  that is not empty cannot be written). When it returns no error, the whole body has
  been written to the destination file, where its name still leads to it, from the
  file's offset on; a file just created holds exactly the body. A request answered with 404 yields an error and leaves the file system as it
  was. In the pipeline, a download that returns an error ends the loop with
  \<^verbatim>\<open>log.Fatalf\<close>, and a run that ends in the loop has a non-zero exit status, has
  entered no later stage and has printed nothing.
\<close>

theorem fetcher_single_attempt:
  "gets (snd (DownloadFile e f url w)) = gets w @ [url]
   \<and> (fst (DownloadFile e f url w) \<noteq> None \<longleftrightarrow>
         net e (length (gets w)) url = GetFails
         \<or> (\<exists>code b. net e (length (gets w)) url = Response code b \<and> code \<noteq> StatusOK)
         \<or> (\<exists>bs. net e (length (gets w)) url = Response StatusOK (BodyFails bs))
         \<or> (\<exists>bs. net e (length (gets w)) url = Response StatusOK (Body bs)
                \<and> bs \<noteq> [] \<and> faults e (OpWrite (Name f))))
   \<and> (fst (DownloadFile e f url w) = None \<longrightarrow>
         (\<exists>bs. net e (length (gets w)) url = Response StatusOK (Body bs)
            \<and> (\<forall>old. lookup (disk w) (Name f) = Some (File old) \<longrightarrow>
                  lookup (disk (snd (DownloadFile e f url w))) (Name f)
                    = Some (File (write_at old (offset f) bs))
                  \<and> (old = [] \<and> offset f = 0 \<longrightarrow>
                       lookup (disk (snd (DownloadFile e f url w))) (Name f)
                         = Some (File bs)))))
   \<and> (\<forall>b. net e (length (gets w)) url = Response 404 b \<longrightarrow>
         DownloadFile e f url w = (Some (ErrStatus 404), w\<lparr>gets := gets w @ [url]\<rparr>))
   \<and> (\<forall>mirror tmp metadata rest r w0 d err.
         os_Create (faults e) (disk (snd (metadata_name e mirror metadata w0)))
             (Join tmp (fst (metadata_name e mirror metadata w0))) = Inr (f, d)
         \<and> url = mirror @ ''/'' @ fst (metadata_name e mirror metadata w0)
         \<and> w = (snd (metadata_name e mirror metadata w0))\<lparr>disk := d\<rparr>
         \<and> fst (DownloadFile e f url w) = Some err \<longrightarrow>
         fetch_loop e mirror tmp (metadata # rest) r w0
           = Inl (Exited 1, log_Printf ''Error: could not download''
                              (snd (DownloadFile e f url w))))
   \<and> (\<forall>mirror tmp w0 w1 r.
         run_start e mirror w0 = Inr (tmp, w1) \<and> run_fetch e mirror tmp w1 = Inl r \<longrightarrow>
         main e mirror False w0 = deferred e tmp r
         \<and> exit_status (fst (main e mirror False w0)) \<noteq> 0
         \<and> stages (snd (main e mirror False w0)) = stages w0
         \<and> stdout (snd (main e mirror False w0)) = stdout w0)"
proof -
  let ?a = "net e (length (gets w)) url"
  let ?r = "DownloadFile e f url w"
  have A: "gets (snd ?r) = gets w @ [url]" by (rule DownloadFile_gets)
  have B: "fst ?r \<noteq> None \<longleftrightarrow>
         ?a = GetFails
         \<or> (\<exists>code b. ?a = Response code b \<and> code \<noteq> StatusOK)
         \<or> (\<exists>bs. ?a = Response StatusOK (BodyFails bs))
         \<or> (\<exists>bs. ?a = Response StatusOK (Body bs)
                \<and> bs \<noteq> [] \<and> faults e (OpWrite (Name f)))"
  proof (cases ?a)
    case GetFails
    then show ?thesis by (simp add: DownloadFile_GetFails)
  next
    case (Response code b)
    show ?thesis
    proof (cases "code = StatusOK")
      case False
      with Response show ?thesis by (simp add: DownloadFile_status)
    next
      case True
      show ?thesis
      proof (cases b)
        case (BodyFails bs)
        with Response True DownloadFile_BodyFails[of e w url bs f] show ?thesis by simp
      next
        case (Body bs)
        with Response True have n: "?a = Response StatusOK (Body bs)" by simp
        show ?thesis using n file_Write_error_iff[of "faults e" "disk w" f bs]
          by (simp add: DownloadFile_Body[OF n])
      qed
    qed
  qed
  have C: "fst ?r = None \<longrightarrow>
         (\<exists>bs. ?a = Response StatusOK (Body bs)
            \<and> (\<forall>old. lookup (disk w) (Name f) = Some (File old) \<longrightarrow>
                  lookup (disk (snd ?r)) (Name f) = Some (File (write_at old (offset f) bs))
                  \<and> (old = [] \<and> offset f = 0 \<longrightarrow>
                       lookup (disk (snd ?r)) (Name f) = Some (File bs))))"
  proof
    assume "fst ?r = None"
    from DownloadFile_success[OF this] obtain bs where
      n: "?a = Response StatusOK (Body bs)"
      and l: "\<forall>old. lookup (disk w) (Name f) = Some (File old) \<longrightarrow>
                lookup (disk (snd ?r)) (Name f) = Some (File (write_at old (offset f) bs))"
      by blast
    have "lookup (disk (snd ?r)) (Name f) = Some (File (write_at old (offset f) bs))
          \<and> (old = [] \<and> offset f = 0 \<longrightarrow> lookup (disk (snd ?r)) (Name f) = Some (File bs))"
      if "lookup (disk w) (Name f) = Some (File old)" for old
      using l that write_at_fresh[of bs] by auto
    with n show "\<exists>bs. ?a = Response StatusOK (Body bs)
            \<and> (\<forall>old. lookup (disk w) (Name f) = Some (File old) \<longrightarrow>
                  lookup (disk (snd ?r)) (Name f) = Some (File (write_at old (offset f) bs))
                  \<and> (old = [] \<and> offset f = 0 \<longrightarrow>
                       lookup (disk (snd ?r)) (Name f) = Some (File bs)))"
      by blast
  qed
  have D: "\<forall>b. ?a = Response 404 b \<longrightarrow> ?r = (Some (ErrStatus 404), w\<lparr>gets := gets w @ [url]\<rparr>)"
    by (simp add: DownloadFile_status StatusOK_def)
  have E: "\<forall>mirror tmp metadata rest r w0 d err.
         os_Create (faults e) (disk (snd (metadata_name e mirror metadata w0)))
             (Join tmp (fst (metadata_name e mirror metadata w0))) = Inr (f, d)
         \<and> url = mirror @ ''/'' @ fst (metadata_name e mirror metadata w0)
         \<and> w = (snd (metadata_name e mirror metadata w0))\<lparr>disk := d\<rparr>
         \<and> fst ?r = Some err \<longrightarrow>
         fetch_loop e mirror tmp (metadata # rest) r w0
           = Inl (Exited 1, log_Printf ''Error: could not download'' (snd ?r))"
  proof (intro allI impI, elim conjE)
    fix mirror tmp metadata rest r w0 d err
    assume c: "os_Create (faults e) (disk (snd (metadata_name e mirror metadata w0)))
             (Join tmp (fst (metadata_name e mirror metadata w0))) = Inr (f, d)"
      and u: "url = mirror @ ''/'' @ fst (metadata_name e mirror metadata w0)"
      and ww: "w = (snd (metadata_name e mirror metadata w0))\<lparr>disk := d\<rparr>"
      and er: "fst ?r = Some err"
    show "fetch_loop e mirror tmp (metadata # rest) r w0
           = Inl (Exited 1, log_Printf ''Error: could not download'' (snd ?r))"
      unfolding fetch_loop_step c using er unfolding u ww by (simp add: log_fields)
  qed
  have F: "\<forall>mirror tmp w0 w1 r.
         run_start e mirror w0 = Inr (tmp, w1) \<and> run_fetch e mirror tmp w1 = Inl r \<longrightarrow>
         main e mirror False w0 = deferred e tmp r
         \<and> exit_status (fst (main e mirror False w0)) \<noteq> 0
         \<and> stages (snd (main e mirror False w0)) = stages w0
         \<and> stdout (snd (main e mirror False w0)) = stdout w0"
  proof (intro allI impI, elim conjE)
    fix mirror tmp w0 w1 r
    assume s: "run_start e mirror w0 = Inr (tmp, w1)" and l: "run_fetch e mirror tmp w1 = Inl r"
    obtain out w' where r: "r = (out, w')" by (cases r)
    have m: "main e mirror False w0 = deferred e tmp r" by (rule main_fetch_fails[OF s l])
    from run_start_keeps[where w'=w1 and tmp=tmp and e=e and mirror=mirror and w=w0] s
    have k1: "stages w1 = stages w0" "stdout w1 = stdout w0" by simp_all
    from fetch_loop_keeps[of e mirror tmp metadatas None w1 out w'] l r
    have k2: "exit_status out \<noteq> 0" "stages w' = stages w1" "stdout w' = stdout w1"
      by (simp_all add: run_fetch_def)
    show "main e mirror False w0 = deferred e tmp r
         \<and> exit_status (fst (main e mirror False w0)) \<noteq> 0
         \<and> stages (snd (main e mirror False w0)) = stages w0
         \<and> stdout (snd (main e mirror False w0)) = stdout w0"
      unfolding m using k1 k2 r by (simp add: deferred_fields)
  qed
  from A B C D E F show ?thesis by (intro conjI)
qed

theorem fetcher_single_attempt_witness:
  "DownloadFile (example_env mirror_404)
      \<lparr>Name = [''tmp'', ''tuf-repository-*'', ''1.root.json''], offset = 0\<rparr>
      ''https://m/1.root.json''
      (example_world\<lparr>disk := Dir [(''tmp'', Dir [(''tuf-repository-*'',
                                        Dir [(''1.root.json'', File [])])])]\<rparr>)
     = (Some (ErrStatus 404),
        example_world\<lparr>disk := Dir [(''tmp'', Dir [(''tuf-repository-*'',
                                        Dir [(''1.root.json'', File [])])])],
                       gets := [''https://m/1.root.json'']\<rparr>)
   \<and> lookup (disk (snd (DownloadFile (example_env good_mirror)
         \<lparr>Name = [''tmp'', ''tuf-repository-*'', ''1.root.json''], offset = 0\<rparr>
         ''https://m/1.root.json''
         (example_world\<lparr>disk := Dir [(''tmp'', Dir [(''tuf-repository-*'',
                                        Dir [(''1.root.json'', File [])])])]\<rparr>))))
        [''tmp'', ''tuf-repository-*'', ''1.root.json''] = Some (File ''{}'')
   \<and> exit_status (fst (main (example_env mirror_404) ''https://m'' False example_world)) = 1
   \<and> stages (snd (main (example_env mirror_404) ''https://m'' False example_world)) = []
   \<and> stdout (snd (main (example_env mirror_404) ''https://m'' False example_world)) = []
   \<and> gets (snd (main (example_env mirror_404) ''https://m'' False example_world))
        = [''https://m'', ''https://m'', ''https://m/1.root.json'']"
proof -
  let ?f = "\<lparr>Name = [''tmp'', ''tuf-repository-*'', ''1.root.json''], offset = 0\<rparr>"
  let ?u = "''https://m/1.root.json''"
  let ?w = "example_world\<lparr>disk := Dir [(''tmp'', Dir [(''tuf-repository-*'',
                                        Dir [(''1.root.json'', File [])])])]\<rparr>"
  let ?bad = "example_env mirror_404" and ?good = "example_env good_mirror"
  note bad = fetcher_single_attempt[of ?bad ?f ?u ?w]
  note good = fetcher_single_attempt[of ?good ?f ?u ?w]
  have n404: "net ?bad (length (gets ?w)) ?u = Response 404 (Body ''not found'')"
    by (simp add: example_env_def example_world_def mirror_404_def)
  have a: "DownloadFile ?bad ?f ?u ?w
      = (Some (ErrStatus 404), ?w\<lparr>gets := gets ?w @ [?u]\<rparr>)"
    by (rule bad[THEN conjunct2, THEN conjunct2, THEN conjunct2, THEN conjunct1,
          rule_format, OF n404])
  have ok: "fst (DownloadFile ?good ?f ?u ?w) = None"
    by (simp add: example_env_def example_world_def good_mirror_def DownloadFile_def
          http_Get_def StatusOK_def io_Copy_def file_Write_def)
  have fresh: "lookup (disk ?w) (Name ?f) = Some (File [])" "offset ?f = 0"
    by (simp_all add: example_world_def)
  have nok: "net ?good (length (gets ?w)) ?u = Response StatusOK (Body ''{}'')"
    by (simp add: example_env_def example_world_def good_mirror_def StatusOK_def)
  note gC = good[THEN conjunct2, THEN conjunct2, THEN conjunct1, rule_format, OF ok]
  have b: "lookup (disk (snd (DownloadFile ?good ?f ?u ?w))) (Name ?f) = Some (File ''{}'')"
    using gC
  proof (elim exE conjE)
    fix bs
    assume g1: "net ?good (length (gets ?w)) ?u = Response StatusOK (Body bs)"
      and g2: "\<forall>old. lookup (disk ?w) (Name ?f) = Some (File old) \<longrightarrow>
          lookup (disk (snd (DownloadFile ?good ?f ?u ?w))) (Name ?f)
            = Some (File (write_at old (offset ?f) bs))
          \<and> (old = [] \<and> offset ?f = 0 \<longrightarrow>
               lookup (disk (snd (DownloadFile ?good ?f ?u ?w))) (Name ?f) = Some (File bs))"
    from g1 nok have "bs = ''{}''" by simp
    with g2[rule_format, OF fresh(1)] fresh(2) show ?thesis by (simp add: write_at_fresh)
  qed
  have m: "\<And>n. mirror_404 n ''https://m'' = Response 200 (Body example_listing)"
    by (simp add: mirror_404_def)
  note s = example_start[of mirror_404, OF m]
  note l = example_fetch_404
  have c: "main ?bad ''https://m'' False example_world
      = deferred ?bad [''tmp'', ''tuf-repository-*'']
          (Exited 1,
           \<lparr>disk = Dir [(''home'', Dir []),
                   (''tmp'', Dir [(''tuf-repository-*'', Dir [(''1.root.json'', File [])])])],
            gets = [''https://m'', ''https://m'', ''https://m/1.root.json''], stdout = [],
            stderr = [''mirror https://m, root https://m/1.root.json'',
                      ''Error: could not download''],
            stages = []\<rparr>)"
    by (rule bad[THEN conjunct2, THEN conjunct2, THEN conjunct2, THEN conjunct2, THEN conjunct2,
          rule_format, OF conjI, OF s l, THEN conjunct1])
  show ?thesis
    unfolding c using a b by (simp add: deferred_def example_world_def)
qed




section \<open>The trust store across a run\<close>




section \<open>Exit status of a run\<close>



section \<open>Repository Restructurer\<close>

text \<open>
  C9. The restructurer is one call of \<^verbatim>\<open>os.Rename\<close> (lines 111 to 117). When it
  succeeds, nothing is left at the original location of the verified targets and what
  was there is at \<^verbatim>\<open>targets\<close> in the working directory. When it fails, the run exits
  with status 1 and the disk is as it was. It fails when there is nothing at the
  original location, and when the original location is a directory and the destination
  exists. In a run whose working directory is, at the time of the move, as the fetcher
  left it, the entries of the working directory after the move are the four metadata
  files, one versioned name for each of \<^verbatim>\<open>root.json\<close>, \<^verbatim>\<open>snapshot.json\<close> and
  \<^verbatim>\<open>targets.json\<close> and \<^verbatim>\<open>timestamp.json\<close>, and \<^verbatim>\<open>targets\<close>, which holds what was at
  the original location.
\<close>

theorem restructurer_moves_targets:
  "(restructure e tmp w = Inr w' \<longrightarrow>
        lookup (disk w') (originalTargetsDir e) = None
        \<and> lookup (disk w) (originalTargetsDir e) \<noteq> None
        \<and> lookup (disk w') (Join tmp ''targets'') = lookup (disk w) (originalTargetsDir e)
        \<and> stages w' = stages w @ [Restructure])
   \<and> (restructure e tmp w = Inl (out, w') \<longrightarrow> out = Exited 1 \<and> disk w' = disk w)
   \<and> (lookup (disk w) (originalTargetsDir e) = None \<longrightarrow>
        (\<exists>w'. restructure e tmp w = Inl (Exited 1, w')))
   \<and> (lookup (disk w) (originalTargetsDir e) = Some (Dir ts)
      \<and> lookup (disk w) (Join tmp ''targets'') \<noteq> None \<longrightarrow>
        (\<exists>w'. restructure e tmp w = Inl (Exited 1, w')))
   \<and> (run_start e mirror w0 = Inr (tmp, w1) \<and> run_trust e mirror tmp w1 = Inr (f, w)
      \<and> restructure e tmp w = Inl (out, w') \<longrightarrow>
        main e mirror False w0 = (Exited 1, w'))
   \<and> (run_start e mirror w0 = Inr (tmp, w1) \<and> run_fetch e mirror tmp w1 = Inr (r, w2)
      \<and> lookup (disk w) tmp = lookup (disk w2) tmp
      \<and> \<not> is_prefix (originalTargetsDir e) tmp \<and> \<not> is_prefix tmp (originalTargetsDir e)
      \<and> restructure e tmp w = Inr w' \<longrightarrow>
        (\<exists>es n1 n2 n3. lookup (disk w') tmp = Some (Dir es)
           \<and> fst ` set es = {n1, n2, n3, ''timestamp.json'', ''targets''}
           \<and> re_matches ''root.json'' n1 \<and> re_matches ''snapshot.json'' n2
           \<and> re_matches ''targets.json'' n3
           \<and> map_of es ''targets'' = lookup (disk w) (originalTargetsDir e)))"
proof -
  let ?old = "originalTargetsDir e" and ?new = "Join tmp ''targets''"
  obtain er d where rn: "os_Rename (faults e) (disk w) ?old ?new = (er, d)"
    by (cases "os_Rename (faults e) (disk w) ?old ?new")
  have ok: "er = None \<and> w' = enter Restructure (w\<lparr>disk := d\<rparr>)" if "restructure e tmp w = Inr w'"
    using that rn by (auto simp: restructure_def split: option.splits)
  have bad: "er \<noteq> None \<and> out = Exited 1 \<and> d = disk w
        \<and> w' = log_Printf ''Failed to move directory'' (enter Restructure (w\<lparr>disk := d\<rparr>))"
    if "restructure e tmp w = Inl (out, w')"
    using that rn os_Rename_error_disk[of "faults e" "disk w" ?old ?new _ d]
    by (auto simp: restructure_def log_fields split: option.splits)
  have A: "restructure e tmp w = Inr w' \<longrightarrow>
        lookup (disk w') (originalTargetsDir e) = None
        \<and> lookup (disk w) (originalTargetsDir e) \<noteq> None
        \<and> lookup (disk w') (Join tmp ''targets'') = lookup (disk w) (originalTargetsDir e)
        \<and> stages w' = stages w @ [Restructure]"
  proof
    assume h: "restructure e tmp w = Inr w'"
    from ok[OF h] rn have r: "os_Rename (faults e) (disk w) ?old ?new = (None, d)"
      and w': "w' = enter Restructure (w\<lparr>disk := d\<rparr>)" by simp_all
    from os_Rename_ok[OF r] have "lookup (disk w) ?old \<noteq> None" by auto
    with os_Rename_moved[OF r] w'
    show "lookup (disk w') (originalTargetsDir e) = None
        \<and> lookup (disk w) (originalTargetsDir e) \<noteq> None
        \<and> lookup (disk w') (Join tmp ''targets'') = lookup (disk w) (originalTargetsDir e)
        \<and> stages w' = stages w @ [Restructure]"
      by (simp add: enter_def)
  qed
  have B: "restructure e tmp w = Inl (out, w') \<longrightarrow> out = Exited 1 \<and> disk w' = disk w"
  proof
    assume h: "restructure e tmp w = Inl (out, w')"
    from bad[OF h] show "out = Exited 1 \<and> disk w' = disk w"
      by (simp add: log_fields enter_def)
  qed
  have C: "lookup (disk w) (originalTargetsDir e) = None \<longrightarrow>
        (\<exists>w'. restructure e tmp w = Inl (Exited 1, w'))"
  proof
    assume "lookup (disk w) (originalTargetsDir e) = None"
    from os_Rename_no_source[OF this, of "faults e" ?new] rn obtain err where "er = Some err"
      by auto
    with rn show "\<exists>w'. restructure e tmp w = Inl (Exited 1, w')"
      by (simp add: restructure_def log_fields)
  qed
  have D: "lookup (disk w) (originalTargetsDir e) = Some (Dir ts)
      \<and> lookup (disk w) (Join tmp ''targets'') \<noteq> None \<longrightarrow>
        (\<exists>w'. restructure e tmp w = Inl (Exited 1, w'))"
  proof (intro impI, elim conjE)
    assume "lookup (disk w) (originalTargetsDir e) = Some (Dir ts)"
      and "lookup (disk w) (Join tmp ''targets'') \<noteq> None"
    from os_Rename_destination[OF this, of "faults e"] rn obtain err where "er = Some err"
      by auto
    with rn show "\<exists>w'. restructure e tmp w = Inl (Exited 1, w')"
      by (simp add: restructure_def log_fields)
  qed
  have E: "run_start e mirror w0 = Inr (tmp, w1) \<and> run_trust e mirror tmp w1 = Inr (f, w)
      \<and> restructure e tmp w = Inl (out, w') \<longrightarrow>
        main e mirror False w0 = (Exited 1, w')"
  proof (intro impI, elim conjE)
    assume h: "run_start e mirror w0 = Inr (tmp, w1)" "run_trust e mirror tmp w1 = Inr (f, w)"
      "restructure e tmp w = Inl (out, w')"
    from bad[OF h(3)] have "out = Exited 1" by simp
    with h show "main e mirror False w0 = (Exited 1, w')"
      by (simp add: main_def run_body_def run_restructure_def deferred_def)
  qed
  have F: "run_start e mirror w0 = Inr (tmp, w1) \<and> run_fetch e mirror tmp w1 = Inr (r, w2)
      \<and> lookup (disk w) tmp = lookup (disk w2) tmp
      \<and> \<not> is_prefix (originalTargetsDir e) tmp \<and> \<not> is_prefix tmp (originalTargetsDir e)
      \<and> restructure e tmp w = Inr w' \<longrightarrow>
        (\<exists>es n1 n2 n3. lookup (disk w') tmp = Some (Dir es)
           \<and> fst ` set es = {n1, n2, n3, ''timestamp.json'', ''targets''}
           \<and> re_matches ''root.json'' n1 \<and> re_matches ''snapshot.json'' n2
           \<and> re_matches ''targets.json'' n3
           \<and> map_of es ''targets'' = lookup (disk w) (originalTargetsDir e))"
  proof (intro impI, elim conjE)
    assume h: "run_start e mirror w0 = Inr (tmp, w1)" "run_fetch e mirror tmp w1 = Inr (r, w2)"
      "lookup (disk w) tmp = lookup (disk w2) tmp"
      "\<not> is_prefix (originalTargetsDir e) tmp" "\<not> is_prefix tmp (originalTargetsDir e)"
      "restructure e tmp w = Inr w'"
    from run_fetch_names[OF h(1,2)] obtain es n1 n2 n3 where
      es2: "lookup (disk w2) tmp = Some (Dir es)"
      and ns: "fst ` set es = {n1, n2, n3, ''timestamp.json''}"
      and m: "re_matches ''root.json'' n1" "re_matches ''snapshot.json'' n2"
        "re_matches ''targets.json'' n3" by (elim exE conjE)
    from es2 h(3) have es: "lookup (disk w) tmp = Some (Dir es)" by simp
    from ok[OF h(6)] rn have "os_Rename (faults e) (disk w) ?old (tmp @ [''targets'']) = (None, d)"
      and w': "disk w' = d" by (simp_all add: Join_def enter_def)
    from os_Rename_into[OF this(1) es h(4,5)] obtain src where
      s: "lookup (disk w) ?old = Some src"
      and l: "lookup d tmp = Some (Dir (AList.update ''targets'' src es))" by blast
    have i: "insert x {a, b, c, y} = {a, b, c, y, x}" for x y a b c :: string
      by (rule set_eqI) (simp only: insert_iff empty_iff, blast)
    have n: "fst ` set (AList.update ''targets'' src es)
            = {n1, n2, n3, ''timestamp.json'', ''targets''}"
      unfolding update_names ns by (rule i)
    have t: "map_of (AList.update ''targets'' src es) ''targets'' = Some src"
      by (simp add: update_conv')
    from l w' have l': "lookup (disk w') tmp = Some (Dir (AList.update ''targets'' src es))"
      by simp
    from t s have t': "map_of (AList.update ''targets'' src es) ''targets''
        = lookup (disk w) (originalTargetsDir e)" by simp
    show "\<exists>es n1 n2 n3. lookup (disk w') tmp = Some (Dir es)
           \<and> fst ` set es = {n1, n2, n3, ''timestamp.json'', ''targets''}
           \<and> re_matches ''root.json'' n1 \<and> re_matches ''snapshot.json'' n2
           \<and> re_matches ''targets.json'' n3
           \<and> map_of es ''targets'' = lookup (disk w) (originalTargetsDir e)"
      by (intro exI[of _ "AList.update ''targets'' src es"] exI[of _ n1] exI[of _ n2]
            exI[of _ n3] conjI l' n m t')
  qed
  from A B C D E F show ?thesis by (intro conjI)
qed

theorem restructurer_moves_targets_witness:
  "restructure (example_env good_mirror) [''tmp'', ''tuf-repository-*''] example_trusted
     = Inr example_moved
   \<and> lookup (disk example_moved) (originalTargetsDir (example_env good_mirror)) = None
   \<and> lookup (disk example_moved) [''tmp'', ''tuf-repository-*'', ''targets'']
       = Some (Dir [(''trusted_root.json'', File ''{}'')])
   \<and> (\<exists>w'. restructure (example_env good_mirror) [''tmp'', ''tuf-repository-*''] example_world
              = Inl (Exited 1, w') \<and> disk w' = disk example_world)
   \<and> (\<exists>w'. restructure (example_env good_mirror) [''tmp'', ''tuf-repository-*'']
              (example_world\<lparr>disk :=
                 Dir [(''home'', Dir [(''.sigstore'', Dir [(''root'', Dir [(''targets'', Dir [])])])]),
                      (''tmp'', Dir [(''tuf-repository-*'', Dir [(''targets'', Dir [])])])]\<rparr>)
              = Inl (Exited 1, w'))
   \<and> fst (main ((example_env good_mirror)\<lparr>tuf_Initialize := idle_tuf\<rparr>) ''https://m'' False
             example_world) = Exited 1
   \<and> (\<exists>es n1 n2 n3.
         lookup (disk example_moved) [''tmp'', ''tuf-repository-*''] = Some (Dir es)
         \<and> fst ` set es = {n1, n2, n3, ''timestamp.json'', ''targets''}
         \<and> re_matches ''root.json'' n1 \<and> re_matches ''snapshot.json'' n2
         \<and> re_matches ''targets.json'' n3
         \<and> map_of es ''targets'' = Some (Dir [(''trusted_root.json'', File ''{}'')]))"
proof -
  let ?e = "example_env good_mirror" and ?tmp = "[''tmp'', ''tuf-repository-*'']"
  let ?i = "(example_env good_mirror)\<lparr>tuf_Initialize := idle_tuf\<rparr>"
  let ?w1 = "\<lparr>disk = Dir [(''home'', Dir []), (''tmp'', Dir [(''tuf-repository-*'', Dir [])])],
             gets = [''https://m''], stdout = [],
             stderr = [''mirror https://m, root https://m/1.root.json''], stages = []\<rparr>"
  let ?f = "\<lparr>Name = [''tmp'', ''tuf-repository-*'', ''1.root.json''], offset = 0\<rparr>"
  let ?both = "example_world\<lparr>disk :=
      Dir [(''home'', Dir [(''.sigstore'', Dir [(''root'', Dir [(''targets'', Dir [])])])]),
           (''tmp'', Dir [(''tuf-repository-*'', Dir [(''targets'', Dir [])])])]\<rparr>"
  let ?w3 = "example_fetched\<lparr>stderr := [''mirror https://m, root https://m/1.root.json'',
                                          ''Root status: ok''],
                              stages := [TrustInit, RootStatus]\<rparr>"
  have old: "originalTargetsDir ?e = [''home'', ''.sigstore'', ''root'', ''targets'']"
    "originalTargetsDir ?i = [''home'', ''.sigstore'', ''root'', ''targets'']"
    by (simp_all add: originalTargetsDir_def example_env_def Join_def)
  have new: "Join ?tmp ''targets'' = [''tmp'', ''tuf-repository-*'', ''targets'']"
    by (simp add: Join_def)
  have s: "run_start ?e ''https://m'' example_world = Inr (?tmp, ?w1)"
    by (rule example_start) (rule good_mirror_answers(1))
  have fg: "run_fetch ?e ''https://m'' ?tmp ?w1 = Inr (Some ?f, example_fetched)"
    unfolding example_fetched_def by (rule example_fetch_good)
  have rs: "restructure ?e ?tmp example_trusted = Inr example_moved"
    unfolding example_trusted_def example_moved_def by (rule example_restructure)
  note a = restructurer_moves_targets[where e = ?e and tmp = ?tmp and w = example_trusted
      and w' = example_moved, THEN conjunct1, THEN mp, OF rs]
  have a1: "lookup (disk example_moved) (originalTargetsDir ?e) = None" by (rule a[THEN conjunct1])
  have src: "lookup (disk example_trusted) (originalTargetsDir ?e)
      = Some (Dir [(''trusted_root.json'', File ''{}'')])"
    unfolding old by (simp add: example_trusted_def)
  have a3: "lookup (disk example_moved) [''tmp'', ''tuf-repository-*'', ''targets'']
       = Some (Dir [(''trusted_root.json'', File ''{}'')])"
    using a[THEN conjunct2, THEN conjunct2, THEN conjunct1] unfolding new src .
  have ns: "lookup (disk example_world) (originalTargetsDir ?e) = None"
    unfolding old by (simp add: example_world_def)
  from restructurer_moves_targets[where e = ?e and tmp = ?tmp and w = example_world,
      THEN conjunct2, THEN conjunct2, THEN conjunct1, THEN mp, OF ns]
  obtain wf where c: "restructure ?e ?tmp example_world = Inl (Exited 1, wf)" by (elim exE)
  have b: "disk wf = disk example_world"
    by (rule restructurer_moves_targets[where e = ?e and tmp = ?tmp and w = example_world
          and w' = wf and out = "Exited 1",
          THEN conjunct2, THEN conjunct1, THEN mp, OF c, THEN conjunct2])
  from c b have cb: "\<exists>w'. restructure ?e ?tmp example_world = Inl (Exited 1, w')
      \<and> disk w' = disk example_world" by blast
  have de: "lookup (disk ?both) (originalTargetsDir ?e) = Some (Dir [])
      \<and> lookup (disk ?both) (Join ?tmp ''targets'') \<noteq> None"
    unfolding old new by simp
  note d = restructurer_moves_targets[where e = ?e and tmp = ?tmp and w = ?both and ts = "[]",
      THEN conjunct2, THEN conjunct2, THEN conjunct2, THEN conjunct1, THEN mp, OF de]
  have si: "run_start ?i ''https://m'' example_world = Inr (?tmp, ?w1)"
    unfolding other_library_simple by (rule s)
  have ti: "run_trust ?i ''https://m'' ?tmp ?w1 = Inr (?f, ?w3)"
  proof -
    have "run_fetch ?i ''https://m'' ?tmp ?w1 = Inr (Some ?f, example_fetched)"
      unfolding run_fetch_def other_library_fetch by (rule fg[unfolded run_fetch_def])
    moreover have "trust_init ?i ''https://m'' (Some ?f) example_fetched = Inr (?f, ?w3)"
      by (simp add: trust_init_def cleanupLocalTUFRepository_def os_RemoveAll_def tufDir_def
            Join_def example_env_def idle_tuf_def os_ReadFile_def enter_def log_Printf_def
            example_fetched_def)
    ultimately show ?thesis by (simp add: run_trust_def)
  qed
  have ni: "lookup (disk ?w3) (originalTargetsDir ?i) = None"
    unfolding old by (simp add: example_fetched_def)
  from restructurer_moves_targets[where e = ?i and tmp = ?tmp and w = ?w3,
      THEN conjunct2, THEN conjunct2, THEN conjunct1, THEN mp, OF ni]
  obtain wi where ci: "restructure ?i ?tmp ?w3 = Inl (Exited 1, wi)" by (elim exE)
  have "main ?i ''https://m'' False example_world = (Exited 1, wi)"
    by (rule restructurer_moves_targets[where e = ?i and tmp = ?tmp and w = ?w3 and w' = wi
          and out = "Exited 1" and mirror = "''https://m''" and ?w0.0 = example_world
          and ?w1.0 = ?w1 and f = ?f,
          THEN conjunct2, THEN conjunct2, THEN conjunct2, THEN conjunct2, THEN conjunct1,
          THEN mp, OF conjI, OF si conjI, OF ti ci])
  then have e1: "fst (main ?i ''https://m'' False example_world) = Exited 1" by simp
  have same: "lookup (disk example_trusted) ?tmp = lookup (disk example_fetched) ?tmp"
    by (simp add: example_trusted_def example_fetched_def)
  have np: "\<not> is_prefix (originalTargetsDir ?e) ?tmp" "\<not> is_prefix ?tmp (originalTargetsDir ?e)"
    unfolding old by simp_all
  note f = restructurer_moves_targets[where e = ?e and tmp = ?tmp and w = example_trusted
      and w' = example_moved and mirror = "''https://m''" and ?w0.0 = example_world
      and ?w1.0 = ?w1 and r = "Some ?f" and ?w2.0 = example_fetched,
      THEN conjunct2, THEN conjunct2, THEN conjunct2, THEN conjunct2, THEN conjunct2,
      THEN mp, OF conjI, OF s conjI, OF fg conjI, OF same conjI, OF np(1) conjI, OF np(2) rs,
      unfolded src]
  from rs a1 a3 cb d e1 f show ?thesis by (intro conjI)
qed

end
